theory Spec2Isabelle
  imports Main
begin

section \<open>SimpleVector: a growable array over an owned block\<close>

text \<open>
  The development embeds \<^verbatim>\<open>simple-vector/simple_vector.h\<close>. A container is a record of
  its three members. Sizes and capacities are natural numbers: a block of \<open>n\<close> elements
  has to exist in memory before a capacity \<open>n\<close> can be doubled, so the arithmetic of the
  source is modelled without wrap-around.

  Every failure of the source is a value: the exception of \<^verbatim>\<open>At\<close>, a failed
  \<^verbatim>\<open>assert\<close>, and the two kinds of undefined behaviour that the code can reach, an
  access outside the allocated block and the overflow of a signed counter.
\<close>

datatype error =
    OutOfRange        \<comment> \<open>\<^verbatim>\<open>std::out_of_range\<close>\<close>
  | AssertionFailed   \<comment> \<open>a failed \<^verbatim>\<open>assert\<close>\<close>
  | OutOfBlock        \<comment> \<open>read or write outside the allocated block\<close>
  | SignedOverflow    \<comment> \<open>\<^verbatim>\<open>++\<close> on an \<^verbatim>\<open>int\<close> that holds \<^verbatim>\<open>INT_MAX\<close>\<close>

subsection \<open>The element type\<close>

text \<open>
  \<^verbatim>\<open>Type\<close> is a template parameter. The code uses its value-initialised object
  \<^verbatim>\<open>Type{}\<close>, its copy and its move. A copy leaves the source as it is. A move gives
  the target the value of the source and leaves the source in a state chosen by the type:
  \<open>moved T x\<close> is that state for a source holding \<open>x\<close> (the identity for a type that
  moves by copying, such as \<^verbatim>\<open>int\<close>).
\<close>

record 'a Type =
  dflt :: 'a
  moved :: "'a \<Rightarrow> 'a"

subsection \<open>The buffer\<close>

text \<open>
  Modelled from the spec: \<^verbatim>\<open>array_ptr.h\<close> (the class \<^verbatim>\<open>ArrayPtr\<close>) is not part of the
  sources. The spec gives its interface: \<^verbatim>\<open>Buffer(n)\<close> is a value-initialised block of
  \<open>n\<close> slots, or no block for \<open>n = 0\<close>; access by index is unchecked; two buffers swap
  ownership; moving from a buffer takes its block and leaves it without one.
  A buffer is the list of its slots, and \<open>[]\<close> is the buffer that holds no block.
\<close>

type_synonym 'a ArrayPtr = "'a list"

definition ArrayPtr :: "'a Type \<Rightarrow> nat \<Rightarrow> 'a ArrayPtr" where
  "ArrayPtr T n = replicate n (dflt T)"

definition rd :: "'a ArrayPtr \<Rightarrow> nat \<Rightarrow> error + 'a" where
  "rd b i = (if i < length b then Inr (b ! i) else Inl OutOfBlock)"

definition wr :: "'a ArrayPtr \<Rightarrow> nat \<Rightarrow> 'a \<Rightarrow> error + 'a ArrayPtr" where
  "wr b i x = (if i < length b then Inr (b[i := x]) else Inl OutOfBlock)"

subsection \<open>Positions\<close>

text \<open>
  \<^verbatim>\<open>Iterator\<close> is \<^verbatim>\<open>Type*\<close>. A position is the null pointer or the address of a slot
  of the container's block, given by the slot's offset from the start of the block.
  The null pointer is below every slot address.

  A position does not say which block it points into: it is read as a position of the
  container it is passed to or returned by. A pointer kept over a reallocation dangles
  in the code; here it would be taken for a position of the new block. The statements
  below therefore use a position only with the container that produced it, and never
  compare positions of two blocks.
\<close>

datatype iter = Null | Slot nat

fun offset :: "iter \<Rightarrow> nat" where
  "offset Null = 0"
| "offset (Slot k) = k"

fun iter_le :: "iter \<Rightarrow> iter \<Rightarrow> bool" where
  "iter_le Null q = True"
| "iter_le (Slot i) Null = False"
| "iter_le (Slot i) (Slot j) = (i \<le> j)"

definition iter_less :: "iter \<Rightarrow> iter \<Rightarrow> bool" where
  "iter_less p q = (iter_le p q \<and> p \<noteq> q)"

text \<open>\<^verbatim>\<open>std::distance(first, last)\<close> for \<open>first \<le> last\<close>.\<close>

definition distance :: "iter \<Rightarrow> iter \<Rightarrow> nat" where
  "distance first lim = offset lim - offset first"

text \<open>\<^verbatim>\<open>&b[k]\<close>: the address of slot \<open>k\<close>; the start of a buffer without a block is null.\<close>

definition slot_addr :: "'a ArrayPtr \<Rightarrow> nat \<Rightarrow> iter" where
  "slot_addr b k = (if b = [] \<and> k = 0 then Null else Slot k)"

subsection \<open>The algorithms of the standard library, as the loops they are\<close>

text \<open>
  \<^verbatim>\<open>std::copy(first, last, d_first)\<close> from one block into another one:
  \<^verbatim>\<open>while (first != last) *d_first++ = *first++;\<close>
  With move iterators the values arrive in the same way; the states left in the source
  block are not kept, because every caller releases that block right after the transfer.
\<close>

function std_copy :: "'a ArrayPtr \<Rightarrow> nat \<Rightarrow> nat \<Rightarrow> 'a ArrayPtr \<Rightarrow> nat \<Rightarrow> error + 'a ArrayPtr" where
  "std_copy src first lim dst d =
     (if first < lim then
        (case rd src first of
           Inl e \<Rightarrow> Inl e
         | Inr x \<Rightarrow>
            (case wr dst d x of
               Inl e \<Rightarrow> Inl e
             | Inr dst' \<Rightarrow> std_copy src (Suc first) lim dst' (Suc d)))
      else Inr dst)"
  by pat_completeness auto
termination
  by (relation "measure (\<lambda>(src, first, lim, dst, d). lim - first)") auto

text \<open>
  \<^verbatim>\<open>std::copy_backward(first, last, d_last)\<close> inside one block:
  \<^verbatim>\<open>while (first != last) *(--d_last) = *(--last);\<close>
\<close>

function std_copy_backward :: "'a ArrayPtr \<Rightarrow> nat \<Rightarrow> nat \<Rightarrow> nat \<Rightarrow> error + 'a ArrayPtr" where
  "std_copy_backward b first lim d_lim =
     (if first < lim then
        (if d_lim = 0 then Inl OutOfBlock
         else
          (case rd b (lim - 1) of
             Inl e \<Rightarrow> Inl e
           | Inr x \<Rightarrow>
              (case wr b (d_lim - 1) x of
                 Inl e \<Rightarrow> Inl e
               | Inr b' \<Rightarrow> std_copy_backward b' first (lim - 1) (d_lim - 1))))
      else Inr b)"
  by pat_completeness auto
termination
  by (relation "measure (\<lambda>(b, first, lim, d_lim). lim - first)") auto

text \<open>The same loop through move iterators: each source slot is left moved-from.\<close>

function move_backward :: "'a Type \<Rightarrow> 'a ArrayPtr \<Rightarrow> nat \<Rightarrow> nat \<Rightarrow> nat \<Rightarrow> error + 'a ArrayPtr" where
  "move_backward T b first lim d_lim =
     (if first < lim then
        (if d_lim = 0 then Inl OutOfBlock
         else
          (case rd b (lim - 1) of
             Inl e \<Rightarrow> Inl e
           | Inr x \<Rightarrow>
              (case wr (b[lim - 1 := moved T x]) (d_lim - 1) x of
                 Inl e \<Rightarrow> Inl e
               | Inr b' \<Rightarrow> move_backward T b' first (lim - 1) (d_lim - 1))))
      else Inr b)"
  by pat_completeness auto
termination
  by (relation "measure (\<lambda>(T, b, first, lim, d_lim). lim - first)") auto

text \<open>
  \<^verbatim>\<open>std::copy\<close> through move iterators inside one block (the loop of \<^verbatim>\<open>Erase\<close>):
  the target slot takes the value, the source slot is left moved-from.
\<close>

function move_forward :: "'a Type \<Rightarrow> 'a ArrayPtr \<Rightarrow> nat \<Rightarrow> nat \<Rightarrow> nat \<Rightarrow> error + 'a ArrayPtr" where
  "move_forward T b first lim d =
     (if first < lim then
        (case rd b first of
           Inl e \<Rightarrow> Inl e
         | Inr x \<Rightarrow>
            (case wr (b[first := moved T x]) d x of
               Inl e \<Rightarrow> Inl e
             | Inr b' \<Rightarrow> move_forward T b' (Suc first) lim (Suc d)))
      else Inr b)"
  by pat_completeness auto
termination
  by (relation "measure (\<lambda>(T, b, first, lim, d). lim - first)") auto

text \<open>\<^verbatim>\<open>std::fill(first, last, value)\<close>.\<close>

function std_fill :: "'a ArrayPtr \<Rightarrow> nat \<Rightarrow> nat \<Rightarrow> 'a \<Rightarrow> error + 'a ArrayPtr" where
  "std_fill b first lim v =
     (if first < lim then
        (case wr b first v of
           Inl e \<Rightarrow> Inl e
         | Inr b' \<Rightarrow> std_fill b' (Suc first) lim v)
      else Inr b)"
  by pat_completeness auto
termination
  by (relation "measure (\<lambda>(b, first, lim, v). lim - first)") auto

text \<open>\<^verbatim>\<open>std::equal(first1, last1, first2)\<close>.\<close>

function std_equal :: "'a ArrayPtr \<Rightarrow> nat \<Rightarrow> nat \<Rightarrow> 'a ArrayPtr \<Rightarrow> nat \<Rightarrow> error + bool" where
  "std_equal b1 first1 lim1 b2 first2 =
     (if first1 < lim1 then
        (case rd b1 first1 of
           Inl e \<Rightarrow> Inl e
         | Inr x \<Rightarrow>
            (case rd b2 first2 of
               Inl e \<Rightarrow> Inl e
             | Inr y \<Rightarrow>
                (if x = y then std_equal b1 (Suc first1) lim1 b2 (Suc first2) else Inr False)))
      else Inr True)"
  by pat_completeness auto
termination
  by (relation "measure (\<lambda>(b1, first1, lim1, b2, first2). lim1 - first1)") auto

subsection \<open>The container\<close>

record 'a SimpleVector =
  items_m :: "'a ArrayPtr"
  size_m :: nat
  cap_m :: nat

text \<open>\<^verbatim>\<open>class ReserveProxyObj\<close> and the free function \<^verbatim>\<open>Reserve\<close> that builds one.\<close>

datatype ReserveProxyObj = ReserveProxyObj nat

fun Res :: "ReserveProxyObj \<Rightarrow> nat" where
  "Res (ReserveProxyObj n) = n"

definition Reserve_proxy :: "nat \<Rightarrow> ReserveProxyObj" where
  "Reserve_proxy capacity_to_reserve = ReserveProxyObj capacity_to_reserve"

subsubsection \<open>Queries and positions\<close>

definition GetSize :: "'a SimpleVector \<Rightarrow> nat" where
  "GetSize v = size_m v"

definition GetCapacity :: "'a SimpleVector \<Rightarrow> nat" where
  "GetCapacity v = cap_m v"

definition IsEmpty :: "'a SimpleVector \<Rightarrow> bool" where
  "IsEmpty v = (if size_m v = 0 then True else False)"

definition begin_it :: "'a SimpleVector \<Rightarrow> iter" where
  "begin_it v = (if cap_m v = 0 then Null else slot_addr (items_m v) 0)"

definition end_it :: "'a SimpleVector \<Rightarrow> iter" where
  "end_it v = (if cap_m v = 0 then Null else slot_addr (items_m v) (size_m v))"

definition cbegin_it :: "'a SimpleVector \<Rightarrow> iter" where
  "cbegin_it v = (if cap_m v = 0 then Null else slot_addr (items_m v) 0)"

definition cend_it :: "'a SimpleVector \<Rightarrow> iter" where
  "cend_it v = (if cap_m v = 0 then Null else slot_addr (items_m v) (size_m v))"

subsubsection \<open>Element access\<close>

text \<open>
  \<^verbatim>\<open>operator[]\<close> returns a reference: \<open>op_index\<close> reads through it, \<open>op_index_set\<close>
  assigns through it, \<open>op_index_addr\<close> takes its address. All three run the assertion
  \<^verbatim>\<open>assert(index <= size_)\<close> first.
\<close>

definition op_index :: "'a SimpleVector \<Rightarrow> nat \<Rightarrow> error + 'a" where
  "op_index v index =
     (if index \<le> size_m v then rd (items_m v) index else Inl AssertionFailed)"

definition op_index_set :: "'a SimpleVector \<Rightarrow> nat \<Rightarrow> 'a \<Rightarrow> error + 'a SimpleVector" where
  "op_index_set v index x =
     (if index \<le> size_m v then
        (case wr (items_m v) index x of
           Inl e \<Rightarrow> Inl e
         | Inr b \<Rightarrow> Inr (v\<lparr>items_m := b\<rparr>))
      else Inl AssertionFailed)"

definition op_index_addr :: "'a SimpleVector \<Rightarrow> nat \<Rightarrow> error + iter" where
  "op_index_addr v index =
     (if index \<le> size_m v then Inr (slot_addr (items_m v) index) else Inl AssertionFailed)"

text \<open>
  \<^verbatim>\<open>At\<close> throws, and the caller goes on with the container: the result is the outcome
  together with the container after the call.
\<close>

definition At :: "'a SimpleVector \<Rightarrow> nat \<Rightarrow> (error + 'a) \<times> 'a SimpleVector" where
  "At v index =
     (if index \<ge> size_m v then (Inl OutOfRange, v)
      else (rd (items_m v) index, v))"

subsubsection \<open>Constructors\<close>

definition SimpleVector_default :: "'a SimpleVector" where
  "SimpleVector_default = \<lparr>items_m = [], size_m = 0, cap_m = 0\<rparr>"

definition SimpleVector_sized :: "'a Type \<Rightarrow> nat \<Rightarrow> 'a SimpleVector" where
  "SimpleVector_sized T sz =
     (if sz \<noteq> 0 then \<lparr>items_m = ArrayPtr T sz, size_m = sz, cap_m = sz\<rparr>
      else SimpleVector_default)"

definition SimpleVector_fill :: "'a Type \<Rightarrow> nat \<Rightarrow> 'a \<Rightarrow> error + 'a SimpleVector" where
  "SimpleVector_fill T sz val =
     (let tmp = SimpleVector_sized T sz in
      case std_fill (items_m tmp) (offset (begin_it tmp)) (offset (end_it tmp)) val of
        Inl e \<Rightarrow> Inl e
      | Inr b \<Rightarrow> Inr \<lparr>items_m = b, size_m = sz, cap_m = sz\<rparr>)"

text \<open>
  The loop of \<^verbatim>\<open>Create\<close>: \<^verbatim>\<open>while (from != to) { tmp[i] = *from; ++from; ++i; }\<close>
  over a source range \<open>[first, lim)\<close> of the block \<open>src\<close>.
  The counter is declared \<^verbatim>\<open>int i = 0\<close>, while every other index of the class is a
  \<^verbatim>\<open>size_t\<close>. It never is negative, so \<open>i\<close> below is its value as a natural number,
  and \<^verbatim>\<open>++i\<close> on a counter that holds \<^verbatim>\<open>INT_MAX\<close> is the signed overflow. \<open>INT_MAX\<close> is
  the largest value of an \<^verbatim>\<open>int\<close> of 32 bits.
\<close>

definition INT_MAX :: nat where
  "INT_MAX = 2147483647"

function Create_loop :: "'a SimpleVector \<Rightarrow> 'a ArrayPtr \<Rightarrow> nat \<Rightarrow> nat \<Rightarrow> nat \<Rightarrow> error + 'a SimpleVector" where
  "Create_loop tmp src first lim i =
     (if first < lim then
        (case rd src first of
           Inl e \<Rightarrow> Inl e
         | Inr x \<Rightarrow>
            (case op_index_set tmp i x of
               Inl e \<Rightarrow> Inl e
             | Inr tmp' \<Rightarrow>
                 if i = INT_MAX then Inl SignedOverflow
                 else Create_loop tmp' src (Suc first) lim (Suc i)))
      else Inr tmp)"
  by pat_completeness auto
termination
  by (relation "measure (\<lambda>(tmp, src, first, lim, i). lim - first)") auto

definition Create :: "'a Type \<Rightarrow> 'a ArrayPtr \<Rightarrow> nat \<Rightarrow> nat \<Rightarrow> nat \<Rightarrow> error + 'a SimpleVector" where
  "Create T src first lim sz =
     (case Create_loop (SimpleVector_sized T sz) src first lim 0 of
        Inl e \<Rightarrow> Inl e
      | Inr tmp \<Rightarrow> Inr (tmp\<lparr>size_m := sz, cap_m := sz\<rparr>))"

definition SimpleVector_init :: "'a Type \<Rightarrow> 'a list \<Rightarrow> error + 'a SimpleVector" where
  "SimpleVector_init T init = Create T init 0 (length init) (length init)"

definition SimpleVector_copy :: "'a Type \<Rightarrow> 'a SimpleVector \<Rightarrow> error + 'a SimpleVector" where
  "SimpleVector_copy T other =
     Create T (items_m other) (offset (begin_it other)) (offset (end_it other)) (GetSize other)"

definition SimpleVector_reserve :: "'a Type \<Rightarrow> ReserveProxyObj \<Rightarrow> 'a SimpleVector" where
  "SimpleVector_reserve T obj = (SimpleVector_sized T (Res obj))\<lparr>size_m := 0\<rparr>"

text \<open>The move constructor: the new container, and \<open>other\<close> as it is left.\<close>

definition SimpleVector_move :: "'a SimpleVector \<Rightarrow> 'a SimpleVector \<times> 'a SimpleVector" where
  "SimpleVector_move other =
     (\<lparr>items_m = items_m other, size_m = size_m other, cap_m = cap_m other\<rparr>,
      \<lparr>items_m = [], size_m = 0, cap_m = 0\<rparr>)"

subsubsection \<open>Capacity and size\<close>

definition Reserve :: "'a Type \<Rightarrow> 'a SimpleVector \<Rightarrow> nat \<Rightarrow> error + 'a SimpleVector" where
  "Reserve T v new_capacity =
     (if new_capacity \<le> cap_m v then Inr v
      else
       (let tmp = SimpleVector_sized T new_capacity in
        case std_copy (items_m v) (offset (begin_it v)) (offset (end_it v))
               (items_m tmp) (offset (begin_it tmp)) of
          Inl e \<Rightarrow> Inl e
        | Inr b \<Rightarrow> Inr (v\<lparr>items_m := b, cap_m := new_capacity\<rparr>)))"

definition Clear :: "'a SimpleVector \<Rightarrow> 'a SimpleVector" where
  "Clear v = v\<lparr>size_m := 0\<rparr>"

text \<open>
  The loop of \<^verbatim>\<open>Resize\<close>:
  \<^verbatim>\<open>Type n{}; for (size_t i = size_; i < new_size; ++i) items_[i] = std::move(n);\<close>
  The one object \<open>n\<close> is moved from in every round.
\<close>

function Resize_loop :: "'a Type \<Rightarrow> 'a ArrayPtr \<Rightarrow> 'a \<Rightarrow> nat \<Rightarrow> nat \<Rightarrow> error + 'a ArrayPtr" where
  "Resize_loop T b n i new_size =
     (if i < new_size then
        (case wr b i n of
           Inl e \<Rightarrow> Inl e
         | Inr b' \<Rightarrow> Resize_loop T b' (moved T n) (Suc i) new_size)
      else Inr b)"
  by pat_completeness auto
termination
  by (relation "measure (\<lambda>(T, b, n, i, new_size). new_size - i)") auto

definition Resize :: "'a Type \<Rightarrow> 'a SimpleVector \<Rightarrow> nat \<Rightarrow> error + 'a SimpleVector" where
  "Resize T v new_size =
     (if new_size < size_m v then Inr (v\<lparr>size_m := new_size\<rparr>)
      else if new_size \<le> cap_m v then
        (case Resize_loop T (items_m v) (dflt T) (size_m v) new_size of
           Inl e \<Rightarrow> Inl e
         | Inr b \<Rightarrow> Inr (v\<lparr>items_m := b, size_m := new_size\<rparr>))
      else
        (let tmp = SimpleVector_sized T (max new_size (cap_m v * 2)) in
         case std_copy (items_m v) (offset (begin_it v)) (offset (end_it v))
                (items_m tmp) (offset (begin_it tmp)) of
           Inl e \<Rightarrow> Inl e
         | Inr b \<Rightarrow>
             Inr (v\<lparr>items_m := b, size_m := new_size, cap_m := max new_size (cap_m v * 2)\<rparr>)))"

subsubsection \<open>Adding and removing elements\<close>

definition PushBack :: "'a Type \<Rightarrow> 'a SimpleVector \<Rightarrow> 'a \<Rightarrow> error + 'a SimpleVector" where
  "PushBack T v item =
     (if size_m v < cap_m v then
        (case wr (items_m v) (size_m v) item of
           Inl e \<Rightarrow> Inl e
         | Inr b \<Rightarrow> Inr (v\<lparr>items_m := b, size_m := size_m v + 1\<rparr>))
      else if cap_m v = 0 then
        (case op_index_set (SimpleVector_sized T 1) (size_m v) item of
           Inl e \<Rightarrow> Inl e
         | Inr tmp \<Rightarrow> Inr (v\<lparr>items_m := items_m tmp, cap_m := 1, size_m := size_m v + 1\<rparr>))
      else
        (let tmp = SimpleVector_sized T (cap_m v * 2) in
         case std_copy (items_m v) (offset (begin_it v)) (offset (end_it v))
                (items_m tmp) (offset (begin_it tmp)) of
           Inl e \<Rightarrow> Inl e
         | Inr b \<Rightarrow>
            (case op_index_set (tmp\<lparr>items_m := b\<rparr>) (size_m v) item of
               Inl e \<Rightarrow> Inl e
             | Inr tmp' \<Rightarrow>
                 Inr (v\<lparr>items_m := items_m tmp', cap_m := cap_m v * 2, size_m := size_m v + 1\<rparr>))))"

text \<open>
  \<^verbatim>\<open>PushBack(Type&& item)\<close>: the same three branches; the item and, on growth, the old
  elements are moved instead of copied. The old block is released, the moved-from item
  belongs to the caller.
\<close>

definition PushBack_move :: "'a Type \<Rightarrow> 'a SimpleVector \<Rightarrow> 'a \<Rightarrow> error + 'a SimpleVector" where
  "PushBack_move T v item =
     (if size_m v < cap_m v then
        (case wr (items_m v) (size_m v) item of
           Inl e \<Rightarrow> Inl e
         | Inr b \<Rightarrow> Inr (v\<lparr>items_m := b, size_m := size_m v + 1\<rparr>))
      else if cap_m v = 0 then
        (case op_index_set (SimpleVector_sized T 1) (size_m v) item of
           Inl e \<Rightarrow> Inl e
         | Inr tmp \<Rightarrow> Inr (v\<lparr>items_m := items_m tmp, cap_m := 1, size_m := size_m v + 1\<rparr>))
      else
        (let tmp = SimpleVector_sized T (cap_m v * 2) in
         case std_copy (items_m v) (offset (begin_it v)) (offset (end_it v))
                (items_m tmp) (offset (begin_it tmp)) of
           Inl e \<Rightarrow> Inl e
         | Inr b \<Rightarrow>
            (case op_index_set (tmp\<lparr>items_m := b\<rparr>) (size_m v) item of
               Inl e \<Rightarrow> Inl e
             | Inr tmp' \<Rightarrow>
                 Inr (v\<lparr>items_m := items_m tmp', cap_m := cap_m v * 2, size_m := size_m v + 1\<rparr>))))"

text \<open>
  \<^verbatim>\<open>Insert(ConstIterator pos, const Type& value)\<close>: the container and the returned
  position. The argument \<open>val\<close> is the value that the reference names when it is read
  (line 245, after the shift): a reference to an element of the container itself, whose
  value the shift may change, is outside the model.
\<close>

definition Insert :: "'a Type \<Rightarrow> 'a SimpleVector \<Rightarrow> iter \<Rightarrow> 'a \<Rightarrow> error + ('a SimpleVector \<times> iter)" where
  "Insert T v pos val =
     (if \<not> (iter_le (begin_it v) pos \<and> iter_le pos (end_it v)) then Inl AssertionFailed
      else if cap_m v = 0 then
        (case PushBack T v val of
           Inl e \<Rightarrow> Inl e
         | Inr v' \<Rightarrow> Inr (v', begin_it v'))
      else
        (let d = distance (cbegin_it v) pos in
         if size_m v < cap_m v then
           (case std_copy_backward (items_m v) (offset pos) (offset (cend_it v))
                   (offset (end_it v) + 1) of
              Inl e \<Rightarrow> Inl e
            | Inr b \<Rightarrow>
               (case wr b d val of
                  Inl e \<Rightarrow> Inl e
                | Inr b' \<Rightarrow> Inr (v\<lparr>items_m := b', size_m := size_m v + 1\<rparr>, slot_addr b' d)))
         else
           (let tmp = SimpleVector_sized T (cap_m v * 2) in
            case std_copy (items_m v) (offset (cbegin_it v)) (offset pos)
                   (items_m tmp) (offset (begin_it tmp)) of
              Inl e \<Rightarrow> Inl e
            | Inr b1 \<Rightarrow>
               (case op_index_set (tmp\<lparr>items_m := b1\<rparr>) d val of
                  Inl e \<Rightarrow> Inl e
                | Inr tmp1 \<Rightarrow>
                   (case op_index_addr tmp1 (d + 1) of
                      Inl e \<Rightarrow> Inl e
                    | Inr a \<Rightarrow>
                       (case std_copy (items_m v) (offset pos) (offset (cend_it v))
                               (items_m tmp1) (offset a) of
                          Inl e \<Rightarrow> Inl e
                        | Inr b2 \<Rightarrow>
                            Inr (v\<lparr>items_m := b2, cap_m := cap_m v * 2, size_m := size_m v + 1\<rparr>,
                                 slot_addr b2 d)))))))"

text \<open>\<^verbatim>\<open>Insert(Iterator pos, Type&& value)\<close>: the shift inside the block goes through move iterators.\<close>

definition Insert_move :: "'a Type \<Rightarrow> 'a SimpleVector \<Rightarrow> iter \<Rightarrow> 'a \<Rightarrow> error + ('a SimpleVector \<times> iter)" where
  "Insert_move T v pos val =
     (if \<not> (iter_le (begin_it v) pos \<and> iter_le pos (end_it v)) then Inl AssertionFailed
      else if cap_m v = 0 then
        (case PushBack_move T v val of
           Inl e \<Rightarrow> Inl e
         | Inr v' \<Rightarrow> Inr (v', begin_it v'))
      else
        (let d = distance (begin_it v) pos in
         if size_m v < cap_m v then
           (case move_backward T (items_m v) (offset pos) (offset (end_it v))
                   (offset (end_it v) + 1) of
              Inl e \<Rightarrow> Inl e
            | Inr b \<Rightarrow>
               (case wr b d val of
                  Inl e \<Rightarrow> Inl e
                | Inr b' \<Rightarrow> Inr (v\<lparr>items_m := b', size_m := size_m v + 1\<rparr>, slot_addr b' d)))
         else
           (let tmp = SimpleVector_sized T (cap_m v * 2) in
            case std_copy (items_m v) (offset (begin_it v)) (offset pos)
                   (items_m tmp) (offset (begin_it tmp)) of
              Inl e \<Rightarrow> Inl e
            | Inr b1 \<Rightarrow>
               (case op_index_set (tmp\<lparr>items_m := b1\<rparr>) d val of
                  Inl e \<Rightarrow> Inl e
                | Inr tmp1 \<Rightarrow>
                   (case op_index_addr tmp1 (d + 1) of
                      Inl e \<Rightarrow> Inl e
                    | Inr a \<Rightarrow>
                       (case std_copy (items_m v) (offset pos) (offset (end_it v))
                               (items_m tmp1) (offset a) of
                          Inl e \<Rightarrow> Inl e
                        | Inr b2 \<Rightarrow>
                            Inr (v\<lparr>items_m := b2, cap_m := cap_m v * 2, size_m := size_m v + 1\<rparr>,
                                 slot_addr b2 d)))))))"

definition PopBack :: "'a SimpleVector \<Rightarrow> error + 'a SimpleVector" where
  "PopBack v =
     (if \<not> (\<not> IsEmpty v) then Inl AssertionFailed
      else Inr (v\<lparr>size_m := size_m v - 1\<rparr>))"

definition Erase :: "'a Type \<Rightarrow> 'a SimpleVector \<Rightarrow> iter \<Rightarrow> error + ('a SimpleVector \<times> iter)" where
  "Erase T v pos =
     (if \<not> (iter_le (begin_it v) pos \<and> iter_less pos (end_it v)) then Inl AssertionFailed
      else
        (let d = distance (begin_it v) pos in
         case move_forward T (items_m v) (offset pos + 1) (offset (end_it v)) d of
           Inl e \<Rightarrow> Inl e
         | Inr b \<Rightarrow> Inr (v\<lparr>items_m := b, size_m := size_m v - 1\<rparr>, slot_addr b d)))"

subsubsection \<open>Comparison\<close>

definition op_eq :: "'a SimpleVector \<Rightarrow> 'a SimpleVector \<Rightarrow> error + bool" where
  "op_eq lhs rhs =
     (if GetSize lhs \<noteq> GetSize rhs then Inr False
      else std_equal (items_m lhs) (offset (begin_it lhs)) (offset (end_it lhs))
             (items_m rhs) (offset (begin_it rhs)))"

definition op_neq :: "'a SimpleVector \<Rightarrow> 'a SimpleVector \<Rightarrow> error + bool" where
  "op_neq lhs rhs = (case op_eq lhs rhs of Inl e \<Rightarrow> Inl e | Inr r \<Rightarrow> Inr (\<not> r))"

subsubsection \<open>Operations on two container objects\<close>

text \<open>
  \<^verbatim>\<open>swap\<close> and the two assignments take a second container by reference, and the move
  assignment compares addresses. The objects live in a store, from addresses to
  containers, so that the two references may name one object.
\<close>

type_synonym addr = nat
type_synonym 'a store = "addr \<Rightarrow> 'a SimpleVector"

definition swap_v :: "'a store \<Rightarrow> addr \<Rightarrow> addr \<Rightarrow> 'a store" where
  "swap_v s this other =
     (let s1 = s(this := (s this)\<lparr>items_m := items_m (s other)\<rparr>,
                 other := (s other)\<lparr>items_m := items_m (s this)\<rparr>);
          s2 = s1(this := (s1 this)\<lparr>size_m := size_m (s1 other)\<rparr>,
                  other := (s1 other)\<lparr>size_m := size_m (s1 this)\<rparr>)
      in s2(this := (s2 this)\<lparr>cap_m := cap_m (s2 other)\<rparr>,
            other := (s2 other)\<lparr>cap_m := cap_m (s2 this)\<rparr>))"

text \<open>
  \<^verbatim>\<open>operator=(const SimpleVector& rhs)\<close>: the guard compares the two containers by value;
  the copy is swapped in and the old state leaves with the temporary.
\<close>

definition assign_copy :: "'a Type \<Rightarrow> 'a store \<Rightarrow> addr \<Rightarrow> addr \<Rightarrow> error + 'a store" where
  "assign_copy T s this rhs =
     (case op_eq (s this) (s rhs) of
        Inl e \<Rightarrow> Inl e
      | Inr same \<Rightarrow>
         if same then Inr s
         else
          (case SimpleVector_copy T (s rhs) of
             Inl e \<Rightarrow> Inl e
           | Inr copy_rhs \<Rightarrow> Inr (s(this := copy_rhs))))"

text \<open>\<^verbatim>\<open>operator=(SimpleVector&& rhs)\<close>: the guard compares the two addresses.\<close>

definition assign_move :: "'a store \<Rightarrow> addr \<Rightarrow> addr \<Rightarrow> 'a store" where
  "assign_move s this rhs =
     (if this = rhs then s
      else
       (let s1 = s(this := (s this)\<lparr>items_m := items_m (s rhs)\<rparr>,
                   rhs := (s rhs)\<lparr>items_m := []\<rparr>);
            s2 = s1(this := (s1 this)\<lparr>size_m := size_m (s1 rhs)\<rparr>,
                    rhs := (s1 rhs)\<lparr>size_m := 0\<rparr>)
        in s2(this := (s2 this)\<lparr>cap_m := cap_m (s2 rhs)\<rparr>,
              rhs := (s2 rhs)\<lparr>cap_m := 0\<rparr>)))"

subsection \<open>The invariant and the logical content\<close>

text \<open>
  The two conditions on size and capacity, and the representation condition of the data
  model: the capacity counts the slots of the block.
\<close>

definition size_cap_ok :: "'a SimpleVector \<Rightarrow> bool" where
  "size_cap_ok v = (0 \<le> size_m v \<and> size_m v \<le> cap_m v \<and> (cap_m v = 0 \<longrightarrow> size_m v = 0))"

definition block_ok :: "'a SimpleVector \<Rightarrow> bool" where
  "block_ok v = (length (items_m v) = cap_m v)"

definition valid :: "'a SimpleVector \<Rightarrow> bool" where
  "valid v = (size_cap_ok v \<and> block_ok v)"

text \<open>The elements at the logical positions \<open>[0, size)\<close>, in order.\<close>

definition elems :: "'a SimpleVector \<Rightarrow> 'a list" where
  "elems v = take (size_m v) (items_m v)"

text \<open>
  Results of operations, for statements about the invariant: \<open>keeps_size_cap\<close> holds
  when a result, if it is a container, satisfies the two conditions; \<open>returns_valid\<close>
  holds when the result is a container and satisfies the invariant. \<open>container_of\<close>
  forgets the returned position, \<open>object_at\<close> reads one object of a returned store.
\<close>

definition keeps_size_cap :: "error + 'a SimpleVector \<Rightarrow> bool" where
  "keeps_size_cap r = (case r of Inl e \<Rightarrow> True | Inr v' \<Rightarrow> size_cap_ok v')"

definition returns_valid :: "error + 'a SimpleVector \<Rightarrow> bool" where
  "returns_valid r = (case r of Inl e \<Rightarrow> False | Inr v' \<Rightarrow> valid v')"

definition container_of :: "error + ('a SimpleVector \<times> iter) \<Rightarrow> error + 'a SimpleVector" where
  "container_of r = (case r of Inl e \<Rightarrow> Inl e | Inr (v', q) \<Rightarrow> Inr v')"

definition object_at :: "error + 'a store \<Rightarrow> addr \<Rightarrow> error + 'a SimpleVector" where
  "object_at r a = (case r of Inl e \<Rightarrow> Inl e | Inr s' \<Rightarrow> Inr (s' a))"

subsection \<open>Concrete element types and objects\<close>

text \<open>
  \<open>int_type\<close> moves by copying. \<open>named_type\<close> is a type such as
  \<^verbatim>\<open>struct Person { std::string name = "anonymous"; };\<close>: value-initialised it holds a
  name, moved-from it holds the empty string.
\<close>

definition int_type :: "int Type" where
  "int_type = \<lparr>dflt = 0, moved = id\<rparr>"

definition named_type :: "string Type" where
  "named_type = \<lparr>dflt = ''anonymous'', moved = (\<lambda>s. [])\<rparr>"

text \<open>A store with three containers, at the addresses 10, 20 and 30.\<close>

definition three_objects :: "int store" where
  "three_objects =
     (\<lambda>a. \<lparr>items_m = [], size_m = 0, cap_m = 0\<rparr>)
       (10 := \<lparr>items_m = [1, 2, 0, 0], size_m = 2, cap_m = 4\<rparr>,
        20 := \<lparr>items_m = [1, 2], size_m = 2, cap_m = 2\<rparr>,
        30 := \<lparr>items_m = [9, 8, 7], size_m = 3, cap_m = 3\<rparr>)"

text \<open>
  The same store with a container of \<open>2\<^sup>3\<^sup>1 + 5\<close> elements at address 30, more than an
  \<^verbatim>\<open>int\<close> can count.
\<close>

definition huge_objects :: "int store" where
  "huge_objects =
     three_objects
       (30 := \<lparr>items_m = replicate 2147483653 7, size_m = 2147483653, cap_m = 2147483653\<rparr>)"

section \<open>Verification\<close>

subsection \<open>What the loops compute\<close>

text \<open>
  Each loop is proved equal to a closed form on lists, for index ranges that lie inside
  the blocks. The recursive equations are applied one round at a time.
\<close>

declare std_copy.simps [simp del] std_copy_backward.simps [simp del] move_backward.simps [simp del]
  move_forward.simps [simp del] std_fill.simps [simp del] std_equal.simps [simp del]
  Create_loop.simps [simp del] Resize_loop.simps [simp del]

lemma std_copy_ok:
  "lim \<le> length src \<Longrightarrow> d + (lim - first) \<le> length dst \<Longrightarrow>
   std_copy src first lim dst d =
     Inr (take d dst @ take (lim - first) (drop first src) @ drop (d + (lim - first)) dst)"
proof (induction src first lim dst d rule: std_copy.induct)
  case (1 src first lim dst d)
  show ?case
  proof (cases "first < lim")
    case False
    then show ?thesis by (subst std_copy.simps) simp
  next
    case True
    let ?x = "src ! first"
    have r: "rd src first = Inr ?x" using True "1.prems" by (simp add: rd_def)
    have w: "wr dst d ?x = Inr (dst[d := ?x])" using True "1.prems" by (simp add: wr_def)
    have ih: "std_copy src (Suc first) lim (dst[d := ?x]) (Suc d) =
      Inr (take (Suc d) (dst[d := ?x]) @ take (lim - Suc first) (drop (Suc first) src)
           @ drop (Suc d + (lim - Suc first)) (dst[d := ?x]))"
      using "1.IH" [OF True r w] "1.prems" True by simp
    have a: "take (Suc d) (dst[d := ?x]) = take d dst @ [?x]"
      using True "1.prems" by (simp add: take_Suc_conv_app_nth)
    have b: "take (lim - first) (drop first src) = ?x # take (lim - Suc first) (drop (Suc first) src)"
      using True "1.prems"
      by (simp add: Cons_nth_drop_Suc [symmetric] take_Suc_Cons [symmetric] Suc_diff_Suc del: take_Suc_Cons)
    have c: "Suc d + (lim - Suc first) = d + (lim - first)" using True by simp
    show ?thesis
      using True r w ih a b c by (subst std_copy.simps) simp
  qed
qed

lemma shift_up_step:
  assumes "first \<le> l" "Suc l < length b"
  shows "take (Suc first) (b[Suc l := b ! l]) @ take (l - first) (drop first (b[Suc l := b ! l]))
           @ drop (Suc l) (b[Suc l := b ! l])
       = take (Suc first) b @ take (Suc l - first) (drop first b) @ drop (Suc (Suc l)) b"
proof (rule nth_equalityI)
  show "length (take (Suc first) (b[Suc l := b ! l]) @ take (l - first) (drop first (b[Suc l := b ! l]))
           @ drop (Suc l) (b[Suc l := b ! l]))
     = length (take (Suc first) b @ take (Suc l - first) (drop first b) @ drop (Suc (Suc l)) b)"
    using assms by simp
next
  fix i
  assume "i < length (take (Suc first) (b[Suc l := b ! l]) @ take (l - first) (drop first (b[Suc l := b ! l]))
           @ drop (Suc l) (b[Suc l := b ! l]))"
  then have i: "i < length b" using assms by simp
  show "(take (Suc first) (b[Suc l := b ! l]) @ take (l - first) (drop first (b[Suc l := b ! l]))
           @ drop (Suc l) (b[Suc l := b ! l])) ! i
      = (take (Suc first) b @ take (Suc l - first) (drop first b) @ drop (Suc (Suc l)) b) ! i"
    using assms i by (auto simp add: nth_append nth_list_update Suc_diff_le intro!: arg_cong [where f = "nth b"])
qed

lemma std_copy_backward_ok:
  "first \<le> lim \<Longrightarrow> lim < length b \<Longrightarrow>
   std_copy_backward b first lim (Suc lim) =
     Inr (take (Suc first) b @ take (lim - first) (drop first b) @ drop (Suc lim) b)"
proof (induction "lim - first" arbitrary: b lim)
  case 0
  then show ?case by (subst std_copy_backward.simps) simp
next
  case (Suc n)
  then obtain l where l: "lim = Suc l" "first \<le> l" "n = l - first" by (cases lim) auto
  let ?b = "b[Suc l := b ! l]"
  have len: "Suc l < length b" using l Suc.prems by simp
  have ih: "std_copy_backward ?b first l (Suc l) =
     Inr (take (Suc first) ?b @ take (l - first) (drop first ?b) @ drop (Suc l) ?b)"
    using Suc.hyps(1) [of l ?b] l len by simp
  have step: "std_copy_backward b first (Suc l) (Suc (Suc l)) = std_copy_backward ?b first l (Suc l)"
    using l len by (subst std_copy_backward.simps) (simp add: rd_def wr_def)
  show ?case
    unfolding l(1) step ih using shift_up_step [OF l(2) len] by simp
qed


lemma move_up_step:
  assumes "first \<le> l" "Suc l < length b"
  shows "(if first < l
          then take first (b[l := m, Suc l := b ! l]) @ [mv ((b[l := m, Suc l := b ! l]) ! first)]
               @ take (l - first) (drop first (b[l := m, Suc l := b ! l]))
               @ drop (Suc l) (b[l := m, Suc l := b ! l])
          else b[l := mv (b ! l), Suc l := b ! l])
       = take first b @ [mv (b ! first)] @ take (Suc l - first) (drop first b) @ drop (Suc (Suc l)) b"
  (is "?L = ?R")
proof (rule nth_equalityI)
  show "length ?L = length ?R" using assms by auto
next
  fix i
  assume "i < length ?L"
  then have i: "i < length b" using assms by (auto split: if_splits)
  show "?L ! i = ?R ! i"
    using assms i
    by (auto simp add: nth_append nth_list_update Suc_diff_le nth_Cons split: nat.splits
          intro!: arg_cong [where f = "nth b"])
qed

lemma move_backward_ok:
  "first \<le> lim \<Longrightarrow> lim < length b \<Longrightarrow>
   move_backward T b first lim (Suc lim) =
     Inr (if first < lim
          then take first b @ [moved T (b ! first)] @ take (lim - first) (drop first b) @ drop (Suc lim) b
          else b)"
proof (induction "lim - first" arbitrary: b lim)
  case 0
  then show ?case by (subst move_backward.simps) simp
next
  case (Suc n)
  then obtain l where l: "lim = Suc l" "first \<le> l" "n = l - first" by (cases lim) auto
  let ?b = "b[l := moved T (b ! l), Suc l := b ! l]"
  have len: "Suc l < length b" using l Suc.prems by simp
  have ih: "move_backward T ?b first l (Suc l) =
     Inr (if first < l
          then take first ?b @ [moved T (?b ! first)] @ take (l - first) (drop first ?b) @ drop (Suc l) ?b
          else ?b)"
    using Suc.hyps(1) [of l ?b] l len by simp
  have step: "move_backward T b first (Suc l) (Suc (Suc l)) = move_backward T ?b first l (Suc l)"
    using l len by (subst move_backward.simps) (simp add: rd_def wr_def)
  have lt: "first < Suc l" using l by simp
  show ?case
    unfolding l(1) step ih
    using move_up_step [OF l(2) len, of "moved T (b ! l)" "moved T"] lt by simp
qed

lemma move_down_step:
  assumes "Suc (Suc d) \<le> lim" "lim \<le> length b"
  shows "(if Suc (Suc d) < lim
          then take (Suc d) (b[Suc d := m, d := b ! Suc d])
               @ take (lim - Suc (Suc d)) (drop (Suc (Suc d)) (b[Suc d := m, d := b ! Suc d]))
               @ [mv ((b[Suc d := m, d := b ! Suc d]) ! (lim - 1))]
               @ drop lim (b[Suc d := m, d := b ! Suc d])
          else b[Suc d := mv (b ! Suc d), d := b ! Suc d])
       = take d b @ take (lim - Suc d) (drop (Suc d) b) @ [mv (b ! (lim - 1))] @ drop lim b"
  (is "?L = ?R")
proof (rule nth_equalityI)
  show "length ?L = length ?R" using assms by auto
next
  fix i
  assume "i < length ?L"
  then have i: "i < length b" using assms by (auto split: if_splits)
  show "?L ! i = ?R ! i"
    using assms i
    by (auto simp add: nth_append nth_list_update Suc_diff_le nth_Cons split: nat.splits
          intro!: arg_cong [where f = "nth b"] arg_cong [where f = mv])
qed

lemma move_forward_ok:
  "Suc d \<le> lim \<Longrightarrow> lim \<le> length b \<Longrightarrow>
   move_forward T b (Suc d) lim d =
     Inr (if Suc d < lim
          then take d b @ take (lim - Suc d) (drop (Suc d) b) @ [moved T (b ! (lim - 1))] @ drop lim b
          else b)"
proof (induction "lim - Suc d" arbitrary: b d)
  case 0
  then show ?case by (subst move_forward.simps) simp
next
  case (Suc n)
  let ?b = "b[Suc d := moved T (b ! Suc d), d := b ! Suc d]"
  have lt: "Suc d < lim" using Suc.hyps(2) by simp
  have ih: "move_forward T ?b (Suc (Suc d)) lim (Suc d) =
     Inr (if Suc (Suc d) < lim
          then take (Suc d) ?b @ take (lim - Suc (Suc d)) (drop (Suc (Suc d)) ?b) @ [moved T (?b ! (lim - 1))] @ drop lim ?b
          else ?b)"
    using Suc.hyps(1) [of "Suc d" ?b] Suc.hyps(2) Suc.prems lt by simp
  have step: "move_forward T b (Suc d) lim d = move_forward T ?b (Suc (Suc d)) lim (Suc d)"
    using lt Suc.prems by (subst move_forward.simps) (simp add: rd_def wr_def)
  have le: "Suc (Suc d) \<le> lim" using lt by simp
  show ?case
    unfolding step ih
    using move_down_step [OF le Suc.prems(2), of "moved T (b ! Suc d)" "moved T"] lt by simp
qed

lemma std_fill_ok:
  "first \<le> lim \<Longrightarrow> lim \<le> length b \<Longrightarrow>
   std_fill b first lim v = Inr (take first b @ replicate (lim - first) v @ drop lim b)"
proof (induction b first lim v rule: std_fill.induct)
  case (1 b first lim v)
  show ?case
  proof (cases "first < lim")
    case False
    then show ?thesis using "1.prems" by (subst std_fill.simps) simp
  next
    case True
    have w: "wr b first v = Inr (b[first := v])" using True "1.prems" by (simp add: wr_def)
    have ih: "std_fill (b[first := v]) (Suc first) lim v =
       Inr (take (Suc first) (b[first := v]) @ replicate (lim - Suc first) v @ drop lim (b[first := v]))"
      using "1.IH" [OF True w] True "1.prems" by simp
    have a: "take (Suc first) (b[first := v]) = take first b @ [v]"
      using True "1.prems" by (simp add: take_Suc_conv_app_nth)
    have b: "replicate (lim - first) v = v # replicate (lim - Suc first) v"
      using True by (simp add: Suc_diff_Suc flip: replicate_Suc)
    show ?thesis
      using True w ih a b by (subst std_fill.simps) simp
  qed
qed

lemma Resize_loop_ok:
  "i \<le> new_size \<Longrightarrow> new_size \<le> length b \<Longrightarrow>
   Resize_loop T b n i new_size =
     Inr (take i b @ map (\<lambda>k. (moved T ^^ k) n) [0..<new_size - i] @ drop new_size b)"
proof (induction T b n i new_size rule: Resize_loop.induct)
  case (1 T b n i new_size)
  show ?case
  proof (cases "i < new_size")
    case False
    then show ?thesis using "1.prems" by (subst Resize_loop.simps) simp
  next
    case True
    have w: "wr b i n = Inr (b[i := n])" using True "1.prems" by (simp add: wr_def)
    have ih: "Resize_loop T (b[i := n]) (moved T n) (Suc i) new_size =
       Inr (take (Suc i) (b[i := n]) @ map (\<lambda>k. (moved T ^^ k) (moved T n)) [0..<new_size - Suc i]
            @ drop new_size (b[i := n]))"
      using "1.IH" [OF True w] True "1.prems" by simp
    have a: "take (Suc i) (b[i := n]) = take i b @ [n]"
      using True "1.prems" by (simp add: take_Suc_conv_app_nth)
    have b: "map (\<lambda>k. (moved T ^^ k) n) [0..<new_size - i]
           = n # map (\<lambda>k. (moved T ^^ k) (moved T n)) [0..<new_size - Suc i]"
    proof -
      have "[0..<new_size - i] = 0 # map Suc [0..<new_size - Suc i]"
        using True by (simp add: Suc_diff_Suc upt_conv_Cons map_Suc_upt del: upt_Suc)
      then show ?thesis by (simp add: funpow_swap1 comp_def)
    qed
    show ?thesis
      using True w ih a b by (subst Resize_loop.simps) simp
  qed
qed

lemma std_equal_ok:
  "lim1 \<le> length b1 \<Longrightarrow> first2 + (lim1 - first1) \<le> length b2 \<Longrightarrow>
   std_equal b1 first1 lim1 b2 first2 =
     Inr (take (lim1 - first1) (drop first1 b1) = take (lim1 - first1) (drop first2 b2))"
proof (induction b1 first1 lim1 b2 first2 rule: std_equal.induct)
  case (1 b1 first1 lim1 b2 first2)
  show ?case
  proof (cases "first1 < lim1")
    case False
    then show ?thesis by (subst std_equal.simps) simp
  next
    case True
    let ?x = "b1 ! first1" and ?y = "b2 ! first2"
    have r1: "rd b1 first1 = Inr ?x" using True "1.prems" by (simp add: rd_def)
    have r2: "rd b2 first2 = Inr ?y" using True "1.prems" by (simp add: rd_def)
    have a: "take (lim1 - first1) (drop first1 b1) = ?x # take (lim1 - Suc first1) (drop (Suc first1) b1)"
      using True "1.prems"
      by (simp add: Cons_nth_drop_Suc [symmetric] take_Suc_Cons [symmetric] Suc_diff_Suc del: take_Suc_Cons)
    have b: "take (lim1 - first1) (drop first2 b2) = ?y # take (lim1 - Suc first1) (drop (Suc first2) b2)"
      using True "1.prems"
      by (simp add: Cons_nth_drop_Suc [symmetric] take_Suc_Cons [symmetric] Suc_diff_Suc del: take_Suc_Cons)
    show ?thesis
    proof (cases "?x = ?y")
      case False
      then show ?thesis using True r1 r2 a b by (subst std_equal.simps) simp
    next
      case eq: True
      have ih: "std_equal b1 (Suc first1) lim1 b2 (Suc first2) =
        Inr (take (lim1 - Suc first1) (drop (Suc first1) b1) = take (lim1 - Suc first1) (drop (Suc first2) b2))"
        using "1.IH" [OF True r1 r2 eq] True "1.prems" by simp
      show ?thesis using True r1 r2 a b eq ih by (subst std_equal.simps) simp
    qed
  qed
qed

lemma Create_loop_ok:
  "lim \<le> length src \<Longrightarrow> i + (lim - first) \<le> length (items_m tmp) \<Longrightarrow>
   i + (lim - first) \<le> Suc (size_m tmp) \<Longrightarrow> i + (lim - first) \<le> INT_MAX \<Longrightarrow>
   Create_loop tmp src first lim i =
     Inr (tmp\<lparr>items_m := take i (items_m tmp) @ take (lim - first) (drop first src)
                           @ drop (i + (lim - first)) (items_m tmp)\<rparr>)"
proof (induction tmp src first lim i rule: Create_loop.induct)
  case (1 tmp src first lim i)
  show ?case
  proof (cases "first < lim")
    case False
    then show ?thesis by (subst Create_loop.simps) simp
  next
    case True
    let ?x = "src ! first"
    let ?t = "tmp\<lparr>items_m := (items_m tmp)[i := ?x]\<rparr>"
    have r: "rd src first = Inr ?x" using True "1.prems" by (simp add: rd_def)
    have "i < length (items_m tmp)" "i \<le> size_m tmp" using True "1.prems" by arith+
    then have w: "op_index_set tmp i ?x = Inr ?t"
      by (simp add: op_index_set_def wr_def)
    have n: "i \<noteq> INT_MAX" using True "1.prems" by arith
    have ih: "Create_loop ?t src (Suc first) lim (Suc i) =
      Inr (?t\<lparr>items_m := take (Suc i) (items_m ?t) @ take (lim - Suc first) (drop (Suc first) src)
                           @ drop (Suc i + (lim - Suc first)) (items_m ?t)\<rparr>)"
      using "1.IH" [OF True r w n] "1.prems" True by simp
    have a: "take (Suc i) ((items_m tmp)[i := ?x]) = take i (items_m tmp) @ [?x]"
      using True "1.prems" by (simp add: take_Suc_conv_app_nth)
    have b: "take (lim - first) (drop first src) = ?x # take (lim - Suc first) (drop (Suc first) src)"
      using True "1.prems"
      by (simp add: Cons_nth_drop_Suc [symmetric] take_Suc_Cons [symmetric] Suc_diff_Suc del: take_Suc_Cons)
    have c: "Suc i + (lim - Suc first) = i + (lim - first)" using True by simp
    show ?thesis
      using True r w n ih a b c by (subst Create_loop.simps) simp
  qed
qed

text \<open>With more than \<open>INT_MAX\<close> elements to copy, the counter overflows.\<close>

lemma Create_loop_overflow:
  "lim \<le> length src \<Longrightarrow> i + (lim - first) \<le> length (items_m tmp) \<Longrightarrow>
   i + (lim - first) \<le> Suc (size_m tmp) \<Longrightarrow> i \<le> INT_MAX \<Longrightarrow>
   INT_MAX < i + (lim - first) \<Longrightarrow>
   Create_loop tmp src first lim i = Inl SignedOverflow"
proof (induction tmp src first lim i rule: Create_loop.induct)
  case (1 tmp src first lim i)
  have True: "first < lim" using "1.prems" by arith
  let ?x = "src ! first"
  let ?t = "tmp\<lparr>items_m := (items_m tmp)[i := ?x]\<rparr>"
  have r: "rd src first = Inr ?x" using True "1.prems" by (simp add: rd_def)
  have "i < length (items_m tmp)" "i \<le> size_m tmp" using True "1.prems" by arith+
  then have w: "op_index_set tmp i ?x = Inr ?t"
    by (simp add: op_index_set_def wr_def)
  show ?case
  proof (cases "i = INT_MAX")
    case True
    then show ?thesis using \<open>first < lim\<close> r w by (subst Create_loop.simps) simp
  next
    case False
    have "Create_loop ?t src (Suc first) lim (Suc i) = Inl SignedOverflow"
      using "1.IH" [OF True r w False] "1.prems" True False by simp
    then show ?thesis using True r w False by (subst Create_loop.simps) simp
  qed
qed

subsection \<open>What the operations compute\<close>

lemma offset_begin_it [simp]: "offset (begin_it v) = 0"
  by (simp add: begin_it_def slot_addr_def)

lemma offset_cbegin_it [simp]: "offset (cbegin_it v) = 0"
  by (simp add: cbegin_it_def slot_addr_def)

lemma offset_end_it: "offset (end_it v) = (if cap_m v = 0 then 0 else size_m v)"
  by (simp add: end_it_def slot_addr_def)

lemma offset_cend_it: "offset (cend_it v) = (if cap_m v = 0 then 0 else size_m v)"
  by (simp add: cend_it_def slot_addr_def)

lemma offset_end_it_ok [simp]: "size_cap_ok v \<Longrightarrow> offset (end_it v) = size_m v"
  by (simp add: offset_end_it size_cap_ok_def)

lemma offset_cend_it_ok [simp]: "size_cap_ok v \<Longrightarrow> offset (cend_it v) = size_m v"
  by (simp add: offset_cend_it size_cap_ok_def)

lemma SimpleVector_sized_eq:
  "SimpleVector_sized T n = \<lparr>items_m = replicate n (dflt T), size_m = n, cap_m = n\<rparr>"
  by (simp add: SimpleVector_sized_def SimpleVector_default_def ArrayPtr_def)

lemma size_cap_ok_sized [simp]: "size_cap_ok (SimpleVector_sized T n)"
  by (simp add: SimpleVector_sized_eq size_cap_ok_def)

lemma validD:
  "valid v \<Longrightarrow> size_m v \<le> cap_m v"
  "valid v \<Longrightarrow> length (items_m v) = cap_m v"
  "valid v \<Longrightarrow> size_cap_ok v"
  by (simp_all add: valid_def size_cap_ok_def block_ok_def)

lemma length_elems [simp]: "valid v \<Longrightarrow> length (elems v) = size_m v"
  by (simp add: elems_def validD)

lemma SimpleVector_fill_eq:
  "SimpleVector_fill T n x = Inr \<lparr>items_m = replicate n x, size_m = n, cap_m = n\<rparr>"
  by (simp add: SimpleVector_fill_def Let_def std_fill_ok SimpleVector_sized_eq size_cap_ok_def offset_end_it)

lemma Create_eq:
  assumes "first \<le> lim" "lim \<le> length src" "lim - first \<le> sz" "lim - first \<le> INT_MAX"
  shows "Create T src first lim sz =
    Inr \<lparr>items_m = take (lim - first) (drop first src) @ replicate (sz - (lim - first)) (dflt T),
         size_m = sz, cap_m = sz\<rparr>"
proof -
  let ?tmp = "SimpleVector_sized T sz"
  have "Create_loop ?tmp src first lim 0 =
     Inr (?tmp\<lparr>items_m := take 0 (items_m ?tmp) @ take (lim - first) (drop first src)
                           @ drop (0 + (lim - first)) (items_m ?tmp)\<rparr>)"
    using assms by (intro Create_loop_ok) (simp_all add: SimpleVector_sized_eq)
  then show ?thesis
    by (simp add: Create_def SimpleVector_sized_eq)
qed

lemma SimpleVector_init_eq:
  "length init \<le> INT_MAX \<Longrightarrow>
   SimpleVector_init T init = Inr \<lparr>items_m = init, size_m = length init, cap_m = length init\<rparr>"
  by (simp add: SimpleVector_init_def Create_eq)

lemma SimpleVector_copy_eq:
  "valid other \<Longrightarrow> size_m other \<le> INT_MAX \<Longrightarrow>
   SimpleVector_copy T other =
     Inr \<lparr>items_m = elems other, size_m = size_m other, cap_m = size_m other\<rparr>"
  by (simp add: SimpleVector_copy_def GetSize_def validD Create_eq elems_def)

lemma SimpleVector_copy_overflow:
  assumes "valid other" "INT_MAX < size_m other"
  shows "SimpleVector_copy T other = Inl SignedOverflow"
proof -
  note f = validD [OF assms(1)]
  have "Create_loop (SimpleVector_sized T (size_m other)) (items_m other) 0 (size_m other) 0
      = Inl SignedOverflow"
    using f assms(2) by (intro Create_loop_overflow) (simp_all add: SimpleVector_sized_eq)
  then show ?thesis
    using f by (simp add: SimpleVector_copy_def GetSize_def Create_def)
qed

lemma Reserve_eq:
  "valid v \<Longrightarrow>
   Reserve T v n =
     Inr (if n \<le> cap_m v then v
          else v\<lparr>items_m := elems v @ replicate (n - size_m v) (dflt T), cap_m := n\<rparr>)"
proof -
  assume v: "valid v"
  note f = validD [OF v]
  show ?thesis using f
    by (simp add: Reserve_def Let_def std_copy_ok SimpleVector_sized_eq elems_def)
qed

lemma Resize_eq:
  "valid v \<Longrightarrow>
   Resize T v n =
     Inr (if n < size_m v then v\<lparr>size_m := n\<rparr>
          else if n \<le> cap_m v then
            v\<lparr>items_m := elems v @ map (\<lambda>k. (moved T ^^ k) (dflt T)) [0..<n - size_m v]
                              @ drop n (items_m v),
              size_m := n\<rparr>
          else
            v\<lparr>items_m := elems v @ replicate (max n (cap_m v * 2) - size_m v) (dflt T),
              size_m := n, cap_m := max n (cap_m v * 2)\<rparr>)"
proof -
  assume v: "valid v"
  note f = validD [OF v]
  show ?thesis using f
    by (simp add: Resize_def Let_def std_copy_ok Resize_loop_ok SimpleVector_sized_eq elems_def)
qed

lemma PushBack_eq:
  "valid v \<Longrightarrow>
   PushBack T v x =
     Inr (if size_m v < cap_m v then v\<lparr>items_m := (items_m v)[size_m v := x], size_m := size_m v + 1\<rparr>
          else if cap_m v = 0 then \<lparr>items_m = [x], size_m = 1, cap_m = 1\<rparr>
          else \<lparr>items_m = elems v @ x # replicate (cap_m v - 1) (dflt T),
                 size_m = size_m v + 1, cap_m = cap_m v * 2\<rparr>)"
proof -
  assume v: "valid v"
  show ?thesis
  proof (cases "size_m v < cap_m v")
    case True
    then show ?thesis using v by (simp add: PushBack_def wr_def validD)
  next
    case False
    then have eq: "size_m v = cap_m v" using validD(1) [OF v] by simp
    show ?thesis
    proof (cases "cap_m v = 0")
      case True
      then show ?thesis using eq
        by (simp add: PushBack_def op_index_set_def wr_def SimpleVector_sized_eq)
    next
      case False
      have "(take (cap_m v) (items_m v) @ replicate (cap_m v) (dflt T))[cap_m v := x]
          = take (cap_m v) (items_m v) @ x # replicate (cap_m v - 1) (dflt T)"
        using False validD(2) [OF v]
        by (cases "cap_m v") (simp_all add: list_update_append)
      then show ?thesis using False eq v
        by (simp add: PushBack_def Let_def validD std_copy_ok SimpleVector_sized_eq
              op_index_set_def wr_def elems_def)
    qed
  qed
qed

lemma PushBack_move_eq: "PushBack_move T v x = PushBack T v x"
  by (simp add: PushBack_move_def PushBack_def)

subsection \<open>PushBack\<close>

text \<open>
  C1. On a container that satisfies the invariant, \<^verbatim>\<open>PushBack(v)\<close> does one of three
  things. With \<open>size < capacity\<close> it stores \<open>v\<close> at index \<open>size\<close>, adds one to the size
  and leaves the capacity (and the slots below \<open>size\<close>) as they are. With
  \<open>capacity = 0\<close> the result has size 1, capacity 1 and the one element \<open>v\<close>.
  Otherwise, with \<open>size = capacity > 0\<close>, the capacity doubles, the old elements keep
  their places and order, \<open>v\<close> sits at the old size, and the size grows by one.
  The overload that takes an rvalue has the same three results.
\<close>

theorem PushBack_three_cases:
  assumes "valid v"
  shows "(size_m v < cap_m v \<longrightarrow>
            (\<exists>b. PushBack T v x = Inr (v\<lparr>items_m := b, size_m := size_m v + 1\<rparr>)
               \<and> b ! size_m v = x \<and> take (size_m v) b = elems v))
       \<and> (cap_m v = 0 \<longrightarrow> PushBack T v x = Inr \<lparr>items_m = [x], size_m = 1, cap_m = 1\<rparr>)
       \<and> (size_m v = cap_m v \<and> 0 < cap_m v \<longrightarrow>
            (\<exists>b. PushBack T v x = Inr \<lparr>items_m = b, size_m = size_m v + 1, cap_m = cap_m v * 2\<rparr>
               \<and> length b = cap_m v * 2 \<and> take (size_m v) b = elems v \<and> b ! size_m v = x))
       \<and> PushBack_move T v x = PushBack T v x"
proof -
  note f = validD [OF assms]
  have a: "size_m v < cap_m v \<longrightarrow>
            (\<exists>b. PushBack T v x = Inr (v\<lparr>items_m := b, size_m := size_m v + 1\<rparr>)
               \<and> b ! size_m v = x \<and> take (size_m v) b = elems v)"
    using f by (auto simp add: PushBack_eq [OF assms] elems_def)
  have b: "cap_m v = 0 \<longrightarrow> PushBack T v x = Inr \<lparr>items_m = [x], size_m = 1, cap_m = 1\<rparr>"
    using f by (simp add: PushBack_eq [OF assms])
  have c: "size_m v = cap_m v \<and> 0 < cap_m v \<longrightarrow>
            (\<exists>b. PushBack T v x = Inr \<lparr>items_m = b, size_m = size_m v + 1, cap_m = cap_m v * 2\<rparr>
               \<and> length b = cap_m v * 2 \<and> take (size_m v) b = elems v \<and> b ! size_m v = x)"
    using f by (auto simp add: PushBack_eq [OF assms] elems_def nth_append)
  show ?thesis using a b c by (simp add: PushBack_move_eq)
qed

theorem PushBack_three_cases_witness:
  "valid \<lparr>items_m = [4, 5 :: int], size_m = 2, cap_m = 2\<rparr>
   \<and> (\<exists>b. PushBack \<lparr>dflt = 0, moved = (\<lambda>n. n)\<rparr> \<lparr>items_m = [4, 5], size_m = 2, cap_m = 2\<rparr> (6 :: int)
            = Inr \<lparr>items_m = b, size_m = 3, cap_m = 4\<rparr>
          \<and> length b = 4 \<and> take 2 b = [4, 5] \<and> b ! 2 = 6)"
proof -
  have h: "valid \<lparr>items_m = [4, 5 :: int], size_m = 2, cap_m = 2\<rparr>"
    by (simp add: valid_def size_cap_ok_def block_ok_def)
  show ?thesis
    using h PushBack_three_cases [OF h, of "\<lparr>dflt = 0, moved = (\<lambda>n. n)\<rparr>" 6]
    by (simp add: elems_def)
qed

subsection \<open>Positions, comparison, Insert and Erase\<close>

lemma begin_it_valid: "valid v \<Longrightarrow> begin_it v = (if cap_m v = 0 then Null else Slot 0)"
  using validD(2) [of v] by (auto simp add: begin_it_def slot_addr_def)

lemma end_it_valid: "valid v \<Longrightarrow> end_it v = (if cap_m v = 0 then Null else Slot (size_m v))"
  using validD(2) [of v] by (auto simp add: end_it_def slot_addr_def)

lemma cbegin_it_eq: "cbegin_it v = begin_it v"
  by (simp add: cbegin_it_def begin_it_def)

lemma cend_it_eq: "cend_it v = end_it v"
  by (simp add: cend_it_def end_it_def)

lemma insert_pos_cases:
  assumes "valid v" "iter_le (begin_it v) p" "iter_le p (end_it v)"
  shows "if cap_m v = 0 then p = Null else p = Slot (offset p) \<and> offset p \<le> size_m v"
  using assms by (cases p) (auto simp add: begin_it_valid end_it_valid split: if_splits)

lemma erase_pos_cases:
  assumes "valid v" "iter_le (begin_it v) p" "iter_less p (end_it v)"
  shows "cap_m v \<noteq> 0 \<and> p = Slot (offset p) \<and> offset p < size_m v"
  using assms by (cases p) (auto simp add: begin_it_valid end_it_valid iter_less_def split: if_splits)

lemma op_eq_valid:
  assumes "valid a" "valid b"
  shows "op_eq a b = Inr (elems a = elems b)"
proof (cases "size_m a = size_m b")
  case False
  then have "elems a \<noteq> elems b"
    using length_elems [OF assms(1)] length_elems [OF assms(2)] by metis
  then show ?thesis using False by (simp add: op_eq_def GetSize_def)
next
  case True
  note fa = validD [OF assms(1)] and fb = validD [OF assms(2)]
  show ?thesis using True fa fb
    by (simp add: op_eq_def GetSize_def std_equal_ok elems_def)
qed

lemma Insert_room:
  assumes v: "valid v" and d: "d \<le> size_m v" and room: "size_m v < cap_m v"
  shows "Insert T v (Slot d) x =
     Inr (v\<lparr>items_m := take d (items_m v) @ x # take (size_m v - d) (drop d (items_m v))
                           @ drop (Suc (size_m v)) (items_m v),
            size_m := size_m v + 1\<rparr>, Slot d)"
proof -
  note f = validD [OF v]
  have cap: "cap_m v \<noteq> 0" using room by simp
  have sh: "std_copy_backward (items_m v) d (size_m v) (Suc (size_m v)) =
     Inr (take (Suc d) (items_m v) @ take (size_m v - d) (drop d (items_m v))
          @ drop (Suc (size_m v)) (items_m v))"
    using d room f by (intro std_copy_backward_ok) simp_all
  have up: "(take (Suc d) (items_m v) @ take (size_m v - d) (drop d (items_m v))
          @ drop (Suc (size_m v)) (items_m v))[d := x]
       = take d (items_m v) @ x # take (size_m v - d) (drop d (items_m v))
                           @ drop (Suc (size_m v)) (items_m v)"
    using d room f by (simp add: list_update_append take_Suc_conv_app_nth)
  show ?thesis
    using d room f cap sh up
    by (simp add: Insert_def Let_def begin_it_valid [OF v] end_it_valid [OF v] cbegin_it_eq cend_it_eq
          distance_def wr_def slot_addr_def)
qed

lemma Insert_full:
  assumes v: "valid v" and d: "d \<le> size_m v" and full: "size_m v = cap_m v" and cap: "cap_m v \<noteq> 0"
  shows "Insert T v (Slot d) x =
     Inr (\<lparr>items_m = take d (items_m v) @ x # drop d (items_m v) @ replicate (cap_m v - 1) (dflt T),
           size_m = size_m v + 1, cap_m = cap_m v * 2\<rparr>, Slot d)"
proof -
  note f = validD [OF v]
  let ?tmp = "replicate (cap_m v * 2) (dflt T)"
  let ?b1 = "take d (items_m v) @ replicate (cap_m v * 2 - d) (dflt T)"
  let ?b1' = "take d (items_m v) @ x # replicate (cap_m v * 2 - Suc d) (dflt T)"
  have c1: "std_copy (items_m v) 0 d ?tmp 0 = Inr ?b1"
    using d f full by (simp add: std_copy_ok)
  have u: "?b1[d := x] = ?b1'"
    using d f full cap by (cases "cap_m v * 2 - d") (simp_all add: list_update_append)
  have c2: "std_copy (items_m v) d (cap_m v) ?b1' (Suc d) =
     Inr (take d (items_m v) @ x # drop d (items_m v) @ replicate (cap_m v - 1) (dflt T))"
  proof -
    have "std_copy (items_m v) d (cap_m v) ?b1' (Suc d) =
       Inr (take (Suc d) ?b1' @ take (cap_m v - d) (drop d (items_m v))
            @ drop (Suc d + (cap_m v - d)) ?b1')"
      using d f full cap by (intro std_copy_ok) simp_all
    moreover have "take (Suc d) ?b1' = take d (items_m v) @ [x]"
      using d f full by simp
    moreover have "drop (Suc d + (cap_m v - d)) ?b1' = replicate (cap_m v - 1) (dflt T)"
    proof -
      have "Suc d + (cap_m v - d) - d = Suc (cap_m v - d)" using d full by simp
      moreover have "cap_m v * 2 - Suc d - (cap_m v - d) = cap_m v - 1" using d full cap by simp
      ultimately show ?thesis using d f full by simp
    qed
    ultimately show ?thesis using d f full by simp
  qed
  show ?thesis
    using d full f cap c1 u c2
    by (simp add: Insert_def Let_def begin_it_valid [OF v] end_it_valid [OF v] cbegin_it_eq cend_it_eq
          distance_def wr_def slot_addr_def SimpleVector_sized_eq op_index_set_def op_index_addr_def)
qed

lemma Insert_empty_block:
  assumes v: "valid v" and cap: "cap_m v = 0"
  shows "Insert T v Null x = Inr (\<lparr>items_m = [x], size_m = 1, cap_m = 1\<rparr>, Slot 0)"
  using cap validD [OF v]
  by (simp add: Insert_def begin_it_def end_it_def PushBack_eq [OF v] slot_addr_def)

lemma Erase_eq:
  assumes v: "valid v" and d: "d < size_m v"
  shows "Erase T v (Slot d) =
     Inr (v\<lparr>items_m := (if Suc d < size_m v
                          then take d (items_m v) @ take (size_m v - Suc d) (drop (Suc d) (items_m v))
                               @ [moved T (items_m v ! (size_m v - 1))] @ drop (size_m v) (items_m v)
                          else items_m v),
            size_m := size_m v - 1\<rparr>, Slot d)"
proof -
  note f = validD [OF v]
  have cap: "cap_m v \<noteq> 0" using d f by auto
  have m: "move_forward T (items_m v) (Suc d) (size_m v) d =
     Inr (if Suc d < size_m v
          then take d (items_m v) @ take (size_m v - Suc d) (drop (Suc d) (items_m v))
               @ [moved T (items_m v ! (size_m v - 1))] @ drop (size_m v) (items_m v)
          else items_m v)"
    using d f by (intro move_forward_ok) simp_all
  have ne: "items_m v \<noteq> []" using cap f by auto
  have ne': "take d (items_m v) @ take (size_m v - Suc d) (drop (Suc d) (items_m v))
               @ [moved T (items_m v ! (size_m v - 1))] @ drop (size_m v) (items_m v) \<noteq> []"
    by simp
  show ?thesis
    using d f cap m ne
    by (simp add: Erase_def Let_def begin_it_valid [OF v] end_it_valid [OF v] iter_less_def
          distance_def slot_addr_def)
qed

lemma take_insert_room:
  assumes "d \<le> n" "n \<le> length xs"
  shows "take (Suc n) (take d xs @ x # take (n - d) (drop d xs) @ ys)
       = take d (take n xs) @ x # drop d (take n xs)"
proof -
  have "take (Suc n) (take d xs @ x # take (n - d) (drop d xs) @ ys)
      = take d xs @ take (Suc n - d) (x # take (n - d) (drop d xs) @ ys)"
    using assms by simp
  also have "Suc n - d = Suc (n - d)" using assms by simp
  also have "take (Suc (n - d)) (x # take (n - d) (drop d xs) @ ys) = x # take (n - d) (drop d xs)"
    using assms by simp
  finally show ?thesis using assms by (simp add: drop_take min_def)
qed

lemma take_insert_full:
  assumes "d \<le> length xs"
  shows "take (Suc (length xs)) (take d xs @ x # drop d xs @ ys) = take d xs @ x # drop d xs"
proof -
  have "length (take d xs @ x # drop d xs) = Suc (length xs)" using assms by simp
  then have "take (Suc (length xs)) ((take d xs @ x # drop d xs) @ ys) = take d xs @ x # drop d xs"
    by (metis append_eq_conv_conj)
  then show ?thesis by simp
qed

lemma Insert_valid:
  assumes v: "valid v" and p: "iter_le (begin_it v) p" "iter_le p (end_it v)"
  shows "\<exists>v'. Insert T v p x = Inr (v', Slot (offset p)) \<and> valid v'
            \<and> size_m v' = size_m v + 1
            \<and> elems v' = take (offset p) (elems v) @ x # drop (offset p) (elems v)"
proof -
  note f = validD [OF v]
  note pc = insert_pos_cases [OF v p]
  show ?thesis
  proof (cases "cap_m v = 0")
    case True
    then have "p = Null" "size_m v = 0" using pc f by auto
    then show ?thesis using True Insert_empty_block [OF v True, of T x]
      by (simp add: valid_def size_cap_ok_def block_ok_def elems_def)
  next
    case False
    then obtain d where d: "p = Slot d" "d \<le> size_m v" using pc by auto
    show ?thesis
    proof (cases "size_m v < cap_m v")
      case True
      have "size_m v \<le> length (items_m v)" using f by simp
      note e = take_insert_room [OF d(2) this]
      show ?thesis
        using d f True Insert_room [OF v d(2) True, of T x] e
        by (simp add: valid_def size_cap_ok_def block_ok_def elems_def)
    next
      case nroom: False
      then have full: "size_m v = cap_m v" using f by simp
      have dl: "d \<le> length (items_m v)" using d f by simp
      have len: "length (items_m v) = size_m v" using f full by simp
      note e = take_insert_full [OF dl, of x "replicate (cap_m v - 1) (dflt T)"]
      have l2: "Suc (cap_m v + (cap_m v - Suc 0)) = cap_m v * 2" using False by simp
      show ?thesis
        using d f full False Insert_full [OF v d(2) full False, of T x] e len l2
        by (simp add: valid_def size_cap_ok_def block_ok_def elems_def)
    qed
  qed
qed

lemma Erase_valid:
  assumes v: "valid v" and d: "d < size_m v"
  shows "\<exists>v'. Erase T v (Slot d) = Inr (v', Slot d) \<and> valid v'
            \<and> size_m v' = size_m v - 1 \<and> cap_m v' = cap_m v
            \<and> elems v' = take d (elems v) @ drop (Suc d) (elems v)"
proof -
  note f = validD [OF v]
  have "take (size_m v - Suc 0) (items_m v) = take d (items_m v) @ take (size_m v - Suc d) (drop (Suc d) (items_m v))"
    if "\<not> Suc d < size_m v"
  proof -
    have "size_m v = Suc d" using that d by simp
    then show ?thesis by simp
  qed
  then show ?thesis
    using d f Erase_eq [OF v d, of T]
    by (auto simp add: valid_def size_cap_ok_def block_ok_def elems_def min_def drop_take)
qed

subsection \<open>Insert, then Erase\<close>

text \<open>
  The claim C2 as it is written erases at \<open>p\<close>, the position that was passed to
  \<^verbatim>\<open>Insert\<close>. For the empty container without a block, \<open>begin\<close> and \<open>end\<close> are the null
  position, \<^verbatim>\<open>Insert\<close> at it allocates a block and returns its first slot, and \<^verbatim>\<open>Erase\<close>
  at the null position then fails its assertion.
\<close>

theorem Erase_at_position_before_Insert:
  "begin_it \<lparr>items_m = [], size_m = 0, cap_m = 0\<rparr> = Null
   \<and> end_it \<lparr>items_m = [], size_m = 0, cap_m = 0\<rparr> = Null
   \<and> Insert int_type \<lparr>items_m = [], size_m = 0, cap_m = 0\<rparr> Null 5
       = Inr (\<lparr>items_m = [5], size_m = 1, cap_m = 1\<rparr>, Slot 0)
   \<and> Erase int_type \<lparr>items_m = [5], size_m = 1, cap_m = 1\<rparr> Null = Inl AssertionFailed"
proof -
  have v: "valid \<lparr>items_m = [], size_m = 0, cap_m = (0 :: nat)\<rparr>"
    by (simp add: valid_def size_cap_ok_def block_ok_def)
  have "Insert int_type \<lparr>items_m = [], size_m = 0, cap_m = 0\<rparr> Null 5
       = Inr (\<lparr>items_m = [5], size_m = 1, cap_m = 1\<rparr>, Slot 0)"
    using Insert_empty_block [OF v, of int_type 5] by simp
  then show ?thesis
    by (simp add: begin_it_def end_it_def Erase_def slot_addr_def)
qed

text \<open>
  C2, amended. For a container \<open>c\<close> that satisfies the invariant, a position \<open>p\<close> in
  \<open>[begin, end]\<close> and a value \<open>x\<close>: \<^verbatim>\<open>Insert\<close> succeeds and returns the position \<open>q\<close> of
  the new element, which has the offset of \<open>p\<close> from \<open>begin\<close>; \<^verbatim>\<open>Erase\<close> at \<open>q\<close> succeeds,
  and the container that results is equal to \<open>c\<close> under \<^verbatim>\<open>operator==\<close>.
\<close>

theorem Erase_after_Insert:
  assumes "valid c" and "iter_le (begin_it c) p" and "iter_le p (end_it c)"
  shows "\<exists>c1 q c2 r. Insert T c p x = Inr (c1, q) \<and> offset q = offset p
            \<and> Erase T c1 q = Inr (c2, r)
            \<and> op_eq c2 c = Inr True"
proof -
  obtain c1 where c1: "Insert T c p x = Inr (c1, Slot (offset p))" "valid c1"
      "size_m c1 = size_m c + 1"
      "elems c1 = take (offset p) (elems c) @ x # drop (offset p) (elems c)"
    using Insert_valid [OF assms] by blast
  have d: "offset p \<le> size_m c"
    using insert_pos_cases [OF assms] validD [OF assms(1)] by (auto split: if_splits)
  then have d1: "offset p < size_m c1" using c1(3) by simp
  obtain c2 where c2: "Erase T c1 (Slot (offset p)) = Inr (c2, Slot (offset p))" "valid c2"
      "elems c2 = take (offset p) (elems c1) @ drop (Suc (offset p)) (elems c1)"
    using Erase_valid [OF c1(2) d1] by blast
  have "elems c2 = elems c"
    using d length_elems [OF assms(1)] by (simp add: c2(3) c1(4))
  then have eq: "op_eq c2 c = Inr True"
    using op_eq_valid [OF c2(2) assms(1)] by simp
  show ?thesis using c1(1) c2(1) eq by auto
qed

theorem Erase_after_Insert_witness:
  "valid \<lparr>items_m = [1, 2, 3 :: int], size_m = 3, cap_m = 3\<rparr>
   \<and> iter_le (begin_it \<lparr>items_m = [1, 2, 3 :: int], size_m = 3, cap_m = 3\<rparr>) (Slot 1)
   \<and> iter_le (Slot 1) (end_it \<lparr>items_m = [1, 2, 3 :: int], size_m = 3, cap_m = 3\<rparr>)
   \<and> (\<exists>c1 q c2 r.
         Insert int_type \<lparr>items_m = [1, 2, 3], size_m = 3, cap_m = 3\<rparr> (Slot 1) 9 = Inr (c1, q)
       \<and> offset q = offset (Slot 1)
       \<and> Erase int_type c1 q = Inr (c2, r)
       \<and> op_eq c2 \<lparr>items_m = [1, 2, 3], size_m = 3, cap_m = 3\<rparr> = Inr True)"
proof -
  let ?c = "\<lparr>items_m = [1, 2, 3 :: int], size_m = 3, cap_m = 3\<rparr>"
  have h1: "valid ?c" by (simp add: valid_def size_cap_ok_def block_ok_def)
  have h2: "iter_le (begin_it ?c) (Slot 1)" by (simp add: begin_it_def slot_addr_def)
  have h3: "iter_le (Slot 1) (end_it ?c)" by (simp add: end_it_def slot_addr_def)
  show ?thesis
    using h1 h2 h3 Erase_after_Insert [OF h1 h2 h3, of int_type 9]
    by (intro conjI)
qed

subsection \<open>Resize within the capacity\<close>

lemma Resize_within_capacity:
  assumes "valid v" "size_m v \<le> n" "n \<le> cap_m v"
  shows "Resize T v n =
     Inr (v\<lparr>items_m := elems v @ map (\<lambda>k. (moved T ^^ k) (dflt T)) [0..<n - size_m v]
                           @ drop n (items_m v),
            size_m := n\<rparr>)"
  using assms by (simp add: Resize_eq)

text \<open>
  The slot \<open>size + k\<close> receives the object \<open>n\<close> after \<open>k\<close> moves from it. The new slots
  all hold the default value when a moved-from default value is again the default
  value, and always the first of them does.
\<close>

lemma Resize_within_capacity_slots:
  assumes "valid v" "size_m v \<le> n" "n \<le> cap_m v" "Resize T v n = Inr v'"
  shows "size_m v' = n" "cap_m v' = cap_m v" "take (size_m v) (items_m v') = elems v"
    "i < n - size_m v \<Longrightarrow> items_m v' ! (size_m v + i) = (moved T ^^ i) (dflt T)"
proof -
  note f = validD [OF assms(1)]
  have v': "v' = v\<lparr>items_m := elems v @ map (\<lambda>k. (moved T ^^ k) (dflt T)) [0..<n - size_m v]
                           @ drop n (items_m v), size_m := n\<rparr>"
    using Resize_within_capacity [OF assms(1-3), of T] assms(4) by simp
  show "size_m v' = n" "cap_m v' = cap_m v" by (simp_all add: v')
  show "take (size_m v) (items_m v') = elems v"
    using length_elems [OF assms(1)] by (simp add: v')
  show "items_m v' ! (size_m v + i) = (moved T ^^ i) (dflt T)" if "i < n - size_m v"
    using that length_elems [OF assms(1)] by (simp add: v' nth_append)
qed

lemma Resize_within_capacity_default:
  assumes "valid v" "size_m v \<le> n" "n \<le> cap_m v" "Resize T v n = Inr v'"
    and stable: "moved T (dflt T) = dflt T"
    and i: "size_m v \<le> i" "i < n"
  shows "items_m v' ! i = dflt T"
proof -
  have pw: "(moved T ^^ k) (dflt T) = dflt T" for k
    by (induction k) (simp_all add: stable)
  have "items_m v' ! (size_m v + (i - size_m v)) = (moved T ^^ (i - size_m v)) (dflt T)"
    using i by (intro Resize_within_capacity_slots(4) [OF assms(1-4)]) simp
  then show ?thesis using i pw by simp
qed

text \<open>
  C3. The claim asks for the default value in every new slot. The code moves from one
  object in every round of the loop, so that from the second new slot on the slots hold
  what a move leaves behind. Here the element type has the default value
  \<open>''anonymous''\<close> and a move leaves the empty string, as for a \<^verbatim>\<open>struct\<close> with a
  \<^verbatim>\<open>std::string\<close> member initialised to a name; the container has size 1 and
  capacity 3, and \<^verbatim>\<open>Resize(3)\<close> leaves the empty string in slot 2.
\<close>

theorem Resize_second_new_slot_moved_from:
  "Resize named_type \<lparr>items_m = [''a'', ''b'', ''c''], size_m = 1, cap_m = 3\<rparr> 3
     = Inr \<lparr>items_m = [''a'', ''anonymous'', []], size_m = 3, cap_m = 3\<rparr>
   \<and> dflt named_type = ''anonymous''"
proof -
  have h: "valid \<lparr>items_m = [''a'', ''b'', ''c''], size_m = 1, cap_m = 3\<rparr>"
    by (simp add: valid_def size_cap_ok_def block_ok_def)
  have u: "[0..<2] = [0, 1]" by (simp add: upt_rec)
  show ?thesis
    by (subst Resize_eq [OF h]) (simp add: elems_def u named_type_def)
qed

subsection \<open>Element access\<close>

text \<open>
  C5. The assertion of \<^verbatim>\<open>operator[]\<close> fails exactly for \<open>index > size\<close>: at
  \<open>index = size\<close>, one past the last element, it passes and the access goes to the
  block. This holds for the reading and for the assigning use of the reference.
\<close>

theorem op_index_accepts_size:
  "(op_index v index = Inl AssertionFailed) = (size_m v < index)
   \<and> (op_index_set v index x = Inl AssertionFailed) = (size_m v < index)
   \<and> op_index v (size_m v) = rd (items_m v) (size_m v)
   \<and> op_index v (size_m v) \<noteq> Inl AssertionFailed"
  by (auto simp add: op_index_def op_index_set_def rd_def wr_def split: sum.splits)

text \<open>
  C6. \<^verbatim>\<open>At(index)\<close> on a container that satisfies the invariant: the outcome is the
  out-of-range error exactly when \<open>index \<ge> size\<close>; for \<open>index < size\<close> it is the element
  at that logical position; and the container after the call is the container before it.
\<close>

theorem At_checked:
  assumes "valid v"
  shows "(fst (At v index) = Inl OutOfRange) = (size_m v \<le> index)
       \<and> (index < size_m v \<longrightarrow> fst (At v index) = Inr (elems v ! index))
       \<and> snd (At v index) = v"
  using validD [OF assms]
  by (auto simp add: At_def rd_def elems_def)

theorem At_checked_witness:
  "valid \<lparr>items_m = [0, 0, 8 :: int], size_m = 3, cap_m = 3\<rparr>
   \<and> At \<lparr>items_m = [0, 0, 8 :: int], size_m = 3, cap_m = 3\<rparr> 5
       = (Inl OutOfRange, \<lparr>items_m = [0, 0, 8], size_m = 3, cap_m = 3\<rparr>)
   \<and> At \<lparr>items_m = [0, 0, 8 :: int], size_m = 3, cap_m = 3\<rparr> 2
       = (Inr 8, \<lparr>items_m = [0, 0, 8], size_m = 3, cap_m = 3\<rparr>)"
proof -
  let ?v = "\<lparr>items_m = [0, 0, 8 :: int], size_m = 3, cap_m = 3\<rparr>"
  have h: "valid ?v" by (simp add: valid_def size_cap_ok_def block_ok_def)
  have "At ?v 5 = (fst (At ?v 5), snd (At ?v 5))" "At ?v 2 = (fst (At ?v 2), snd (At ?v 2))"
    by simp_all
  then show ?thesis
    using h At_checked [OF h, of 5] At_checked [OF h, of 2]
    by (simp add: elems_def)
qed

subsection \<open>swap\<close>

text \<open>
  C9. \<^verbatim>\<open>a.swap(b)\<close> exchanges the two objects: afterwards \<open>a\<close> is what \<open>b\<close> was
  (block, size and capacity) and \<open>b\<close> is what \<open>a\<close> was; no other object changes.
\<close>

theorem swap_exchanges:
  "swap_v s a b = s(a := s b, b := s a)"
  by (rule ext) (simp add: swap_v_def Let_def)

subsection \<open>begin and end\<close>

text \<open>
  C10. For a container that satisfies the invariant, \<open>begin\<close> and \<open>end\<close> are the same
  position exactly when the size is 0; with capacity 0 both are the null position, and
  with a capacity above 0 neither is. The const overloads and \<open>cbegin\<close>, \<open>cend\<close> return
  the same positions.
\<close>

theorem begin_end_positions:
  assumes "valid v"
  shows "(begin_it v = end_it v) = (size_m v = 0)
       \<and> (cap_m v = 0 \<longrightarrow> begin_it v = Null \<and> end_it v = Null)
       \<and> (0 < cap_m v \<longrightarrow> begin_it v \<noteq> Null \<and> end_it v \<noteq> Null)
       \<and> cbegin_it v = begin_it v \<and> cend_it v = end_it v"
  using validD [OF assms]
  by (auto simp add: begin_it_valid [OF assms] end_it_valid [OF assms] cbegin_it_eq cend_it_eq
        size_cap_ok_def)

theorem begin_end_positions_witness:
  "valid \<lparr>items_m = [3, 0 :: int], size_m = 1, cap_m = 2\<rparr>
   \<and> begin_it \<lparr>items_m = [3, 0 :: int], size_m = 1, cap_m = 2\<rparr>
        \<noteq> end_it \<lparr>items_m = [3, 0 :: int], size_m = 1, cap_m = 2\<rparr>
   \<and> begin_it \<lparr>items_m = [3, 0 :: int], size_m = 1, cap_m = 2\<rparr> \<noteq> Null
   \<and> end_it \<lparr>items_m = [3, 0 :: int], size_m = 1, cap_m = 2\<rparr> \<noteq> Null"
proof -
  let ?v = "\<lparr>items_m = [3, 0 :: int], size_m = 1, cap_m = 2\<rparr>"
  have h: "valid ?v" by (simp add: valid_def size_cap_ok_def block_ok_def)
  show ?thesis using h begin_end_positions [OF h] by simp
qed

subsection \<open>Copy assignment\<close>

lemma valid_copy: "valid v \<Longrightarrow> valid \<lparr>items_m = elems v, size_m = size_m v, cap_m = size_m v\<rparr>"
  by (simp add: valid_def size_cap_ok_def block_ok_def elems_def)

lemma elems_copy: "valid v \<Longrightarrow> elems \<lparr>items_m = elems v, size_m = size_m v, cap_m = size_m v\<rparr> = elems v"
  by (simp add: elems_def)

text \<open>
  Copy assignment of two objects \<open>this\<close> and \<open>rhs\<close> that satisfy the invariant.
  \<^verbatim>\<open>operator==\<close> tells whether their elements are the same. If they are, the assignment
  changes nothing in the store: \<open>this\<close> keeps its block and its capacity, also when \<open>rhs\<close>
  is another object. If they are not and \<open>rhs\<close> has at most \<open>INT_MAX\<close> elements, \<open>this\<close>
  becomes a copy of \<open>rhs\<close> on a block of its own with capacity \<open>size\<close>, equal to \<open>rhs\<close>
  under \<^verbatim>\<open>operator==\<close>, and \<open>rhs\<close> and every other object stay as they were. If they are
  not and \<open>rhs\<close> has more than \<open>INT_MAX\<close> elements, the counter of \<^verbatim>\<open>Create\<close> overflows and
  no copy is made.
\<close>

theorem copy_assign:
  assumes "valid (s this)" and "valid (s rhs)"
  shows "op_eq (s this) (s rhs) = Inr (elems (s this) = elems (s rhs))
       \<and> (elems (s this) = elems (s rhs) \<longrightarrow> assign_copy T s this rhs = Inr s)
       \<and> (elems (s this) \<noteq> elems (s rhs) \<and> size_m (s rhs) \<le> INT_MAX \<longrightarrow>
            assign_copy T s this rhs =
              Inr (s(this := \<lparr>items_m = elems (s rhs), size_m = size_m (s rhs), cap_m = size_m (s rhs)\<rparr>))
            \<and> (s(this := \<lparr>items_m = elems (s rhs), size_m = size_m (s rhs), cap_m = size_m (s rhs)\<rparr>)) rhs
                = s rhs
            \<and> op_eq \<lparr>items_m = elems (s rhs), size_m = size_m (s rhs), cap_m = size_m (s rhs)\<rparr> (s rhs)
                = Inr True)
       \<and> (elems (s this) \<noteq> elems (s rhs) \<and> INT_MAX < size_m (s rhs) \<longrightarrow>
            assign_copy T s this rhs = Inl SignedOverflow)"
proof -
  have e: "op_eq (s this) (s rhs) = Inr (elems (s this) = elems (s rhs))"
    using assms by (rule op_eq_valid)
  have c: "SimpleVector_copy T (s rhs) =
      Inr \<lparr>items_m = elems (s rhs), size_m = size_m (s rhs), cap_m = size_m (s rhs)\<rparr>"
    if "size_m (s rhs) \<le> INT_MAX"
    using assms(2) that by (rule SimpleVector_copy_eq)
  have o: "SimpleVector_copy T (s rhs) = Inl SignedOverflow" if "INT_MAX < size_m (s rhs)"
    using assms(2) that by (rule SimpleVector_copy_overflow)
  have same: "elems (s this) = elems (s rhs) \<longrightarrow> assign_copy T s this rhs = Inr s"
    by (simp add: assign_copy_def e)
  have diff: "elems (s this) \<noteq> elems (s rhs) \<and> size_m (s rhs) \<le> INT_MAX \<longrightarrow>
      assign_copy T s this rhs =
        Inr (s(this := \<lparr>items_m = elems (s rhs), size_m = size_m (s rhs), cap_m = size_m (s rhs)\<rparr>))"
    by (simp add: assign_copy_def e c)
  have over: "elems (s this) \<noteq> elems (s rhs) \<and> INT_MAX < size_m (s rhs) \<longrightarrow>
      assign_copy T s this rhs = Inl SignedOverflow"
    by (simp add: assign_copy_def e o)
  have other: "elems (s this) \<noteq> elems (s rhs) \<longrightarrow>
      (s(this := \<lparr>items_m = elems (s rhs), size_m = size_m (s rhs), cap_m = size_m (s rhs)\<rparr>)) rhs = s rhs"
    by auto
  have eq: "op_eq \<lparr>items_m = elems (s rhs), size_m = size_m (s rhs), cap_m = size_m (s rhs)\<rparr> (s rhs)
      = Inr True"
    using op_eq_valid [OF valid_copy [OF assms(2)] assms(2)] elems_copy [OF assms(2)] by simp
  show ?thesis using e same diff over other eq by blast
qed

theorem copy_assign_witness:
  "valid (three_objects 10) \<and> valid (three_objects 20) \<and> valid (three_objects 30)
   \<and> assign_copy int_type three_objects 10 20 = Inr three_objects
   \<and> cap_m (three_objects 10) = 4 \<and> cap_m (three_objects 20) = 2
   \<and> assign_copy int_type three_objects 10 30 =
       Inr (three_objects (10 := \<lparr>items_m = [9, 8, 7], size_m = 3, cap_m = 3\<rparr>))"
proof -
  have v0: "three_objects 10 = \<lparr>items_m = [1, 2, 0, 0], size_m = 2, cap_m = 4\<rparr>"
    and v1: "three_objects 20 = \<lparr>items_m = [1, 2], size_m = 2, cap_m = 2\<rparr>"
    and v2: "three_objects 30 = \<lparr>items_m = [9, 8, 7], size_m = 3, cap_m = 3\<rparr>"
    by (simp_all add: three_objects_def)
  have h0: "valid (three_objects 10)" and h1: "valid (three_objects 20)"
    and h2: "valid (three_objects 30)"
    by (simp_all add: v0 v1 v2 valid_def size_cap_ok_def block_ok_def)
  have e01: "elems (three_objects 10) = elems (three_objects 20)"
    and e02: "elems (three_objects 10) \<noteq> elems (three_objects 30)"
    and e2: "elems (three_objects 30) = [9, 8, 7]"
    and b2: "size_m (three_objects 30) \<le> INT_MAX"
    by (simp_all add: v0 v1 v2 elems_def INT_MAX_def)
  have a: "assign_copy int_type three_objects 10 20 = Inr three_objects"
    using copy_assign [OF h0 h1, of int_type] e01 by blast
  have "assign_copy int_type three_objects 10 30 =
       Inr (three_objects (10 := \<lparr>items_m = elems (three_objects 30),
              size_m = size_m (three_objects 30), cap_m = size_m (three_objects 30)\<rparr>))"
    using copy_assign [OF h0 h2, of int_type] e02 b2 by blast
  then have b: "assign_copy int_type three_objects 10 30 =
       Inr (three_objects (10 := \<lparr>items_m = [9, 8, 7], size_m = 3, cap_m = 3\<rparr>))"
    by (simp add: e2) (simp add: v2)
  show ?thesis using h0 h1 h2 a b by (simp add: v0 v1)
qed

lemma huge_objects_valid:
  "valid (huge_objects 10)" "valid (huge_objects 30)"
  "size_m (huge_objects 10) = 2" "size_m (huge_objects 30) = 2147483653"
  by (simp_all add: huge_objects_def three_objects_def valid_def size_cap_ok_def block_ok_def)

text \<open>
  C4. The claim promises the copy for every pair of containers that are not value-equal.
  \<^verbatim>\<open>Create\<close>, which makes the copy, counts the elements with \<^verbatim>\<open>int i\<close> where the rest of
  the class uses \<^verbatim>\<open>size_t\<close>. For the container of \<open>2\<^sup>3\<^sup>1 + 5\<close> elements at address 30,
  assigned to the container of two elements at address 10, the counter overflows and
  the assignment produces no copy.
\<close>

theorem copy_assign_beyond_INT_MAX:
  "size_m (huge_objects 30) = 2147483653 \<and> length (items_m (huge_objects 30)) = 2147483653
   \<and> cap_m (huge_objects 30) = 2147483653 \<and> size_m (huge_objects 10) = 2
   \<and> op_eq (huge_objects 10) (huge_objects 30) = Inr False
   \<and> assign_copy int_type huge_objects 10 30 = Inl SignedOverflow"
proof -
  note h = huge_objects_valid
  have "length (elems (huge_objects 10)) \<noteq> length (elems (huge_objects 30))"
    by (simp add: h)
  then have ne: "elems (huge_objects 10) \<noteq> elems (huge_objects 30)" by metis
  then have e: "op_eq (huge_objects 10) (huge_objects 30) = Inr False"
    using op_eq_valid [OF h(1,2)] by simp
  have big: "INT_MAX < size_m (huge_objects 30)" by (simp add: h INT_MAX_def)
  have "SimpleVector_copy int_type (huge_objects 30) = Inl SignedOverflow"
    using h(2) big by (rule SimpleVector_copy_overflow)
  then have a: "assign_copy int_type huge_objects 10 30 = Inl SignedOverflow"
    by (simp add: assign_copy_def e)
  have "length (items_m (huge_objects 30)) = 2147483653" "cap_m (huge_objects 30) = 2147483653"
    by (simp_all add: huge_objects_def)
  then show ?thesis using h(3,4) e a by simp
qed

subsection \<open>Moving\<close>

text \<open>
  C7. The move constructor leaves its argument with size 0 and capacity 0, and the new
  container has the size and the elements that the argument had. The move assignment
  does the same for the source \<open>rhs\<close> and the destination \<open>this\<close>, two objects; called
  with one object for both, the guard \<^verbatim>\<open>this == &rhs\<close> returns and nothing changes.
\<close>

theorem move_leaves_source_empty:
  "size_m (snd (SimpleVector_move other)) = 0 \<and> cap_m (snd (SimpleVector_move other)) = 0
   \<and> size_m (fst (SimpleVector_move other)) = size_m other
   \<and> elems (fst (SimpleVector_move other)) = elems other
   \<and> (this \<noteq> rhs \<longrightarrow>
         size_m (assign_move s this rhs rhs) = 0 \<and> cap_m (assign_move s this rhs rhs) = 0
       \<and> size_m (assign_move s this rhs this) = size_m (s rhs)
       \<and> elems (assign_move s this rhs this) = elems (s rhs))
   \<and> assign_move s this this = s"
  by (simp add: SimpleVector_move_def assign_move_def Let_def elems_def)

theorem move_leaves_source_empty_witness:
  "(10 :: addr) \<noteq> 30
   \<and> size_m (assign_move three_objects 10 30 30) = 0 \<and> cap_m (assign_move three_objects 10 30 30) = 0
   \<and> size_m (assign_move three_objects 10 30 10) = 3
   \<and> elems (assign_move three_objects 10 30 10) = [9, 8, 7]"
proof -
  have h: "(10 :: addr) \<noteq> 30" by simp
  have v2: "three_objects 30 = \<lparr>items_m = [9, 8, 7], size_m = 3, cap_m = 3\<rparr>"
    by (simp add: three_objects_def)
  have "size_m (assign_move three_objects 10 30 30) = 0
      \<and> cap_m (assign_move three_objects 10 30 30) = 0
      \<and> size_m (assign_move three_objects 10 30 10) = size_m (three_objects 30)
      \<and> elems (assign_move three_objects 10 30 10) = elems (three_objects 30)"
    using h move_leaves_source_empty [of "three_objects 30" 10 30 three_objects] by blast
  moreover have "elems (three_objects 30) = [9, 8, 7]" "size_m (three_objects 30) = 3"
    by (simp_all add: v2 elems_def)
  ultimately show ?thesis using h by simp
qed

subsection \<open>The two conditions on size and capacity are kept\<close>

lemma keeps_constructors:
  "size_cap_ok (SimpleVector_default :: 'a SimpleVector)"
  "size_cap_ok (SimpleVector_sized T n)"
  "keeps_size_cap (SimpleVector_fill T n x)"
  "keeps_size_cap (Create T src first lim n)"
  "keeps_size_cap (SimpleVector_init T init)"
  "keeps_size_cap (SimpleVector_copy T other)"
  "size_cap_ok (SimpleVector_reserve T obj)"
  by (auto simp add: keeps_size_cap_def size_cap_ok_def SimpleVector_default_def
        SimpleVector_sized_eq SimpleVector_fill_def Create_def SimpleVector_init_def
        SimpleVector_copy_def SimpleVector_reserve_def Let_def split: sum.splits)

lemma keeps_move_constructor:
  "size_cap_ok v \<Longrightarrow> size_cap_ok (fst (SimpleVector_move v)) \<and> size_cap_ok (snd (SimpleVector_move v))"
  by (simp add: SimpleVector_move_def size_cap_ok_def)

lemma keeps_Reserve: "size_cap_ok v \<Longrightarrow> keeps_size_cap (Reserve T v n)"
  by (auto simp add: keeps_size_cap_def size_cap_ok_def Reserve_def Let_def split: sum.splits)

lemma keeps_Clear: "size_cap_ok v \<Longrightarrow> size_cap_ok (Clear v)"
  by (simp add: Clear_def size_cap_ok_def)

lemma keeps_Resize: "size_cap_ok v \<Longrightarrow> keeps_size_cap (Resize T v n)"
  by (auto simp add: keeps_size_cap_def size_cap_ok_def Resize_def Let_def split: sum.splits)

lemma keeps_PushBack: "size_cap_ok v \<Longrightarrow> keeps_size_cap (PushBack T v x)"
  by (auto simp add: keeps_size_cap_def size_cap_ok_def PushBack_def Let_def op_index_set_def
        split: sum.splits if_splits)

lemma keeps_PushBack_move: "size_cap_ok v \<Longrightarrow> keeps_size_cap (PushBack_move T v x)"
  by (simp add: PushBack_move_eq keeps_PushBack)

lemma keeps_Insert: "size_cap_ok v \<Longrightarrow> keeps_size_cap (container_of (Insert T v p x))"
  using keeps_PushBack [of v T x]
  by (auto simp add: keeps_size_cap_def container_of_def size_cap_ok_def Insert_def Let_def
        split: sum.splits if_splits)

lemma keeps_Insert_move: "size_cap_ok v \<Longrightarrow> keeps_size_cap (container_of (Insert_move T v p x))"
  using keeps_PushBack_move [of v T x]
  by (auto simp add: keeps_size_cap_def container_of_def size_cap_ok_def Insert_move_def Let_def
        split: sum.splits if_splits)

lemma keeps_PopBack: "size_cap_ok v \<Longrightarrow> keeps_size_cap (PopBack v)"
  by (auto simp add: keeps_size_cap_def size_cap_ok_def PopBack_def IsEmpty_def)

lemma keeps_Erase: "size_cap_ok v \<Longrightarrow> keeps_size_cap (container_of (Erase T v p))"
  by (auto simp add: keeps_size_cap_def container_of_def size_cap_ok_def Erase_def Let_def
        split: sum.splits if_splits)

lemma keeps_op_index_set: "size_cap_ok v \<Longrightarrow> keeps_size_cap (op_index_set v i x)"
  by (auto simp add: keeps_size_cap_def size_cap_ok_def op_index_set_def split: sum.splits)

lemma keeps_At: "snd (At v i) = v"
  by (simp add: At_def)

lemma swap_v_update: "swap_v s a b = s(a := s b, b := s a)"
  by (rule ext) (simp add: swap_v_def Let_def)

lemma keeps_swap:
  "size_cap_ok (s this) \<Longrightarrow> size_cap_ok (s other) \<Longrightarrow>
   size_cap_ok (swap_v s this other this) \<and> size_cap_ok (swap_v s this other other)"
  by (simp add: swap_v_update)

lemma keeps_assign_copy:
  "size_cap_ok (s this) \<Longrightarrow> size_cap_ok (s rhs) \<Longrightarrow>
   keeps_size_cap (object_at (assign_copy T s this rhs) this)
   \<and> keeps_size_cap (object_at (assign_copy T s this rhs) rhs)"
  using keeps_constructors(6) [of T "s rhs"]
  by (auto simp add: keeps_size_cap_def object_at_def assign_copy_def split: sum.splits if_splits)

lemma keeps_assign_move:
  "size_cap_ok (s this) \<Longrightarrow> size_cap_ok (s rhs) \<Longrightarrow>
   size_cap_ok (assign_move s this rhs this) \<and> size_cap_ok (assign_move s this rhs rhs)"
  by (simp add: assign_move_def Let_def size_cap_ok_def)

subsection \<open>Every operation returns, and the result satisfies the invariant\<close>

lemma valid_sized: "valid (SimpleVector_sized T n)"
  by (simp add: SimpleVector_sized_eq valid_def size_cap_ok_def block_ok_def)

lemma returns_constructors:
  "valid (SimpleVector_default :: 'a SimpleVector)"
  "valid (SimpleVector_sized T n)"
  "returns_valid (SimpleVector_fill T n x)"
  "length init \<le> INT_MAX \<Longrightarrow> returns_valid (SimpleVector_init T init)"
  "valid other \<Longrightarrow> size_m other \<le> INT_MAX \<Longrightarrow> returns_valid (SimpleVector_copy T other)"
  "valid (SimpleVector_reserve T obj)"
  by (simp_all add: returns_valid_def valid_def size_cap_ok_def block_ok_def
        SimpleVector_default_def SimpleVector_sized_eq SimpleVector_fill_eq
        SimpleVector_init_eq SimpleVector_copy_eq SimpleVector_reserve_def elems_def)

lemma returns_move_constructor:
  "valid v \<Longrightarrow> valid (fst (SimpleVector_move v)) \<and> valid (snd (SimpleVector_move v))"
  by (simp add: SimpleVector_move_def valid_def size_cap_ok_def block_ok_def)

lemma returns_Reserve: "valid v \<Longrightarrow> returns_valid (Reserve T v n)"
proof -
  assume v: "valid v"
  note f = validD [OF v]
  show ?thesis using v f
    by (simp add: returns_valid_def Reserve_eq [OF v] valid_def size_cap_ok_def block_ok_def elems_def)
qed

lemma returns_Clear: "valid v \<Longrightarrow> valid (Clear v)"
  by (simp add: Clear_def valid_def size_cap_ok_def block_ok_def)

lemma returns_Resize: "valid v \<Longrightarrow> returns_valid (Resize T v n)"
proof -
  assume v: "valid v"
  note f = validD [OF v]
  show ?thesis using v f
    by (auto simp add: returns_valid_def Resize_eq [OF v] valid_def size_cap_ok_def block_ok_def
          elems_def max_def)
qed

lemma returns_PushBack: "valid v \<Longrightarrow> returns_valid (PushBack T v x)"
proof -
  assume v: "valid v"
  note f = validD [OF v]
  show ?thesis using v f
    by (auto simp add: returns_valid_def PushBack_eq [OF v] valid_def size_cap_ok_def block_ok_def
          elems_def)
qed

lemma returns_PushBack_move: "valid v \<Longrightarrow> returns_valid (PushBack_move T v x)"
  by (simp add: PushBack_move_eq returns_PushBack)

lemma returns_Insert:
  assumes "valid v" "iter_le (begin_it v) p" "iter_le p (end_it v)"
  shows "returns_valid (container_of (Insert T v p x))"
  using Insert_valid [OF assms, of T x]
  by (auto simp add: returns_valid_def container_of_def)

text \<open>
  Under the invariant the rvalue overload of \<^verbatim>\<open>Insert\<close> has the result of the other
  one: the slot that the shift leaves moved-from is the one that takes the new value.
\<close>

lemma move_backward_then_write:
  assumes "d \<le> n" "n < length b"
  shows "(if d < n
          then take d b @ [m] @ take (n - d) (drop d b) @ drop (Suc n) b
          else b)[d := x]
       = (take (Suc d) b @ take (n - d) (drop d b) @ drop (Suc n) b)[d := x]"
proof (cases "d < n")
  case True
  then show ?thesis using assms
    by (simp add: list_update_append take_Suc_conv_app_nth)
next
  case False
  then have "d = n" using assms by simp
  then show ?thesis using assms by simp
qed

lemma Insert_move_eq:
  assumes v: "valid v"
  shows "Insert_move T v p x = Insert T v p x"
proof (cases "iter_le (begin_it v) p \<and> iter_le p (end_it v)")
  case False
  then show ?thesis by (simp add: Insert_move_def Insert_def)
next
  case True
  note f = validD [OF v]
  note pc = insert_pos_cases [OF v True [THEN conjunct1] True [THEN conjunct2]]
  show ?thesis
  proof (cases "size_m v < cap_m v")
    case nroom: False
    then show ?thesis
      unfolding Insert_move_def Insert_def PushBack_move_eq cbegin_it_eq cend_it_eq by simp
  next
    case room: True
    then have cap: "cap_m v \<noteq> 0" by simp
    then obtain d where d: "p = Slot d" "d \<le> size_m v" using pc by auto
    have len: "size_m v < length (items_m v)" using room f by simp
    have mb: "move_backward T (items_m v) d (size_m v) (Suc (size_m v)) =
       Inr (if d < size_m v
            then take d (items_m v) @ [moved T (items_m v ! d)]
                 @ take (size_m v - d) (drop d (items_m v)) @ drop (Suc (size_m v)) (items_m v)
            else items_m v)"
      using d(2) len by (rule move_backward_ok)
    have cb: "std_copy_backward (items_m v) d (size_m v) (Suc (size_m v)) =
       Inr (take (Suc d) (items_m v) @ take (size_m v - d) (drop d (items_m v))
            @ drop (Suc (size_m v)) (items_m v))"
      using d(2) len by (rule std_copy_backward_ok)
    note w = move_backward_then_write [OF d(2) len, of "moved T (items_m v ! d)" x]
    have l1: "length (if d < size_m v
            then take d (items_m v) @ [moved T (items_m v ! d)]
                 @ take (size_m v - d) (drop d (items_m v)) @ drop (Suc (size_m v)) (items_m v)
            else items_m v) = length (items_m v)"
      using d(2) len by auto
    have l2: "length (take (Suc d) (items_m v) @ take (size_m v - d) (drop d (items_m v))
            @ drop (Suc (size_m v)) (items_m v)) = length (items_m v)"
      using d(2) len by auto
    show ?thesis
      using d room cap f mb cb w l1 l2 True
      by (simp add: Insert_move_def Insert_def Let_def cbegin_it_eq cend_it_eq distance_def
            wr_def del: append.simps)
  qed
qed

lemma returns_Insert_move:
  assumes "valid v" "iter_le (begin_it v) p" "iter_le p (end_it v)"
  shows "returns_valid (container_of (Insert_move T v p x))"
  using returns_Insert [OF assms] by (simp add: Insert_move_eq [OF assms(1)])

lemma returns_PopBack: "valid v \<Longrightarrow> \<not> IsEmpty v \<Longrightarrow> returns_valid (PopBack v)"
  by (auto simp add: returns_valid_def PopBack_def valid_def size_cap_ok_def block_ok_def IsEmpty_def)

lemma returns_Erase:
  assumes "valid v" "iter_le (begin_it v) p" "iter_less p (end_it v)"
  shows "returns_valid (container_of (Erase T v p))"
proof -
  obtain d where d: "p = Slot d" "d < size_m v"
    using erase_pos_cases [OF assms] by auto
  show ?thesis
    using Erase_valid [OF assms(1) d(2), of T] d(1)
    by (auto simp add: returns_valid_def container_of_def)
qed

lemma returns_op_index_set: "valid v \<Longrightarrow> i < size_m v \<Longrightarrow> returns_valid (op_index_set v i x)"
  by (simp add: returns_valid_def op_index_set_def wr_def valid_def size_cap_ok_def block_ok_def)

lemma returns_swap:
  "valid (s this) \<Longrightarrow> valid (s other) \<Longrightarrow>
   valid (swap_v s this other this) \<and> valid (swap_v s this other other)"
  by (simp add: swap_v_update)

lemma returns_assign_copy:
  assumes "valid (s this)" "valid (s rhs)" "size_m (s rhs) \<le> INT_MAX"
  shows "returns_valid (object_at (assign_copy T s this rhs) this)
       \<and> returns_valid (object_at (assign_copy T s this rhs) rhs)"
  using assms valid_copy [OF assms(2)]
  by (simp add: returns_valid_def object_at_def assign_copy_def op_eq_valid [OF assms(1,2)]
        SimpleVector_copy_eq [OF assms(2,3)])

lemma returns_assign_move:
  "valid (s this) \<Longrightarrow> valid (s rhs) \<Longrightarrow>
   valid (assign_move s this rhs this) \<and> valid (assign_move s this rhs rhs)"
  by (simp add: assign_move_def Let_def valid_def size_cap_ok_def block_ok_def)

subsection \<open>The invariant under every operation\<close>

text \<open>
  C8. First part: on containers that satisfy \<open>0 \<le> size \<le> capacity\<close> and
  \<open>capacity = 0 \<longrightarrow> size = 0\<close>, whatever container an operation produces or leaves
  behind satisfies the two conditions again (an operation whose assertion fails produces
  none). This covers the constructors, \<^verbatim>\<open>Reserve\<close>, \<^verbatim>\<open>Clear\<close>, \<^verbatim>\<open>Resize\<close>, both
  \<^verbatim>\<open>PushBack\<close>, both \<^verbatim>\<open>Insert\<close>, \<^verbatim>\<open>PopBack\<close>, \<^verbatim>\<open>Erase\<close>, assignment through
  \<^verbatim>\<open>operator[]\<close>, \<^verbatim>\<open>At\<close>, \<^verbatim>\<open>swap\<close> and the two assignment operators, for the receiver and
  for the argument container. The remaining members are queries without an effect.

  Second part: when moreover the capacity is the number of slots of the block, every
  operation called within its precondition does return, and all containers involved
  satisfy the two conditions and the condition on the block afterwards. The operations
  that copy through \<^verbatim>\<open>Create\<close> (from a list, from a container, and the copy assignment)
  return for at most \<open>INT_MAX\<close> elements to copy, the range of the counter of \<^verbatim>\<open>Create\<close>.
\<close>

theorem invariant_preserved:
  "(size_cap_ok (v :: 'a SimpleVector) \<and> size_cap_ok (s this) \<and> size_cap_ok (s other) \<longrightarrow>
       size_cap_ok (SimpleVector_default :: 'a SimpleVector)
     \<and> size_cap_ok (SimpleVector_sized T n)
     \<and> keeps_size_cap (SimpleVector_fill T n x)
     \<and> keeps_size_cap (SimpleVector_init T init)
     \<and> keeps_size_cap (SimpleVector_copy T v)
     \<and> size_cap_ok (SimpleVector_reserve T obj)
     \<and> size_cap_ok (fst (SimpleVector_move v)) \<and> size_cap_ok (snd (SimpleVector_move v))
     \<and> keeps_size_cap (Reserve T v n)
     \<and> size_cap_ok (Clear v)
     \<and> keeps_size_cap (Resize T v n)
     \<and> keeps_size_cap (PushBack T v x)
     \<and> keeps_size_cap (PushBack_move T v x)
     \<and> keeps_size_cap (container_of (Insert T v p x))
     \<and> keeps_size_cap (container_of (Insert_move T v p x))
     \<and> keeps_size_cap (PopBack v)
     \<and> keeps_size_cap (container_of (Erase T v p))
     \<and> keeps_size_cap (op_index_set v i x)
     \<and> snd (At v i) = v
     \<and> size_cap_ok (swap_v s this other this) \<and> size_cap_ok (swap_v s this other other)
     \<and> keeps_size_cap (object_at (assign_copy T s this other) this)
     \<and> keeps_size_cap (object_at (assign_copy T s this other) other)
     \<and> size_cap_ok (assign_move s this other this) \<and> size_cap_ok (assign_move s this other other))
   \<and> (valid v \<and> valid (s this) \<and> valid (s other) \<longrightarrow>
       valid (SimpleVector_default :: 'a SimpleVector)
     \<and> valid (SimpleVector_sized T n)
     \<and> returns_valid (SimpleVector_fill T n x)
     \<and> (length init \<le> INT_MAX \<longrightarrow> returns_valid (SimpleVector_init T init))
     \<and> (size_m v \<le> INT_MAX \<longrightarrow> returns_valid (SimpleVector_copy T v))
     \<and> valid (SimpleVector_reserve T obj)
     \<and> valid (fst (SimpleVector_move v)) \<and> valid (snd (SimpleVector_move v))
     \<and> returns_valid (Reserve T v n)
     \<and> valid (Clear v)
     \<and> returns_valid (Resize T v n)
     \<and> returns_valid (PushBack T v x)
     \<and> returns_valid (PushBack_move T v x)
     \<and> (iter_le (begin_it v) p \<and> iter_le p (end_it v) \<longrightarrow>
           returns_valid (container_of (Insert T v p x))
         \<and> returns_valid (container_of (Insert_move T v p x)))
     \<and> (\<not> IsEmpty v \<longrightarrow> returns_valid (PopBack v))
     \<and> (iter_le (begin_it v) p \<and> iter_less p (end_it v) \<longrightarrow>
           returns_valid (container_of (Erase T v p)))
     \<and> (i < size_m v \<longrightarrow> returns_valid (op_index_set v i x))
     \<and> valid (swap_v s this other this) \<and> valid (swap_v s this other other)
     \<and> (size_m (s other) \<le> INT_MAX \<longrightarrow>
           returns_valid (object_at (assign_copy T s this other) this)
         \<and> returns_valid (object_at (assign_copy T s this other) other))
     \<and> valid (assign_move s this other this) \<and> valid (assign_move s this other other))"
proof (rule conjI; rule impI; elim conjE)
  assume a: "size_cap_ok v" "size_cap_ok (s this)" "size_cap_ok (s other)"
  show "size_cap_ok (SimpleVector_default :: 'a SimpleVector)
     \<and> size_cap_ok (SimpleVector_sized T n)
     \<and> keeps_size_cap (SimpleVector_fill T n x)
     \<and> keeps_size_cap (SimpleVector_init T init)
     \<and> keeps_size_cap (SimpleVector_copy T v)
     \<and> size_cap_ok (SimpleVector_reserve T obj)
     \<and> size_cap_ok (fst (SimpleVector_move v)) \<and> size_cap_ok (snd (SimpleVector_move v))
     \<and> keeps_size_cap (Reserve T v n)
     \<and> size_cap_ok (Clear v)
     \<and> keeps_size_cap (Resize T v n)
     \<and> keeps_size_cap (PushBack T v x)
     \<and> keeps_size_cap (PushBack_move T v x)
     \<and> keeps_size_cap (container_of (Insert T v p x))
     \<and> keeps_size_cap (container_of (Insert_move T v p x))
     \<and> keeps_size_cap (PopBack v)
     \<and> keeps_size_cap (container_of (Erase T v p))
     \<and> keeps_size_cap (op_index_set v i x)
     \<and> snd (At v i) = v
     \<and> size_cap_ok (swap_v s this other this) \<and> size_cap_ok (swap_v s this other other)
     \<and> keeps_size_cap (object_at (assign_copy T s this other) this)
     \<and> keeps_size_cap (object_at (assign_copy T s this other) other)
     \<and> size_cap_ok (assign_move s this other this) \<and> size_cap_ok (assign_move s this other other)"
    by (simp only: keeps_constructors(1,2,3,5,6,7) keeps_move_constructor [OF a(1)] keeps_Reserve [OF a(1)]
      keeps_Clear [OF a(1)] keeps_Resize [OF a(1)] keeps_PushBack [OF a(1)]
      keeps_PushBack_move [OF a(1)] keeps_Insert [OF a(1)] keeps_Insert_move [OF a(1)]
      keeps_PopBack [OF a(1)] keeps_Erase [OF a(1)] keeps_op_index_set [OF a(1)] keeps_At
      keeps_swap [OF a(2,3)] keeps_assign_copy [OF a(2,3)] keeps_assign_move [OF a(2,3)]
      simp_thms)
next
  assume a: "valid v" "valid (s this)" "valid (s other)"
  show "valid (SimpleVector_default :: 'a SimpleVector)
     \<and> valid (SimpleVector_sized T n)
     \<and> returns_valid (SimpleVector_fill T n x)
     \<and> (length init \<le> INT_MAX \<longrightarrow> returns_valid (SimpleVector_init T init))
     \<and> (size_m v \<le> INT_MAX \<longrightarrow> returns_valid (SimpleVector_copy T v))
     \<and> valid (SimpleVector_reserve T obj)
     \<and> valid (fst (SimpleVector_move v)) \<and> valid (snd (SimpleVector_move v))
     \<and> returns_valid (Reserve T v n)
     \<and> valid (Clear v)
     \<and> returns_valid (Resize T v n)
     \<and> returns_valid (PushBack T v x)
     \<and> returns_valid (PushBack_move T v x)
     \<and> (iter_le (begin_it v) p \<and> iter_le p (end_it v) \<longrightarrow>
           returns_valid (container_of (Insert T v p x))
         \<and> returns_valid (container_of (Insert_move T v p x)))
     \<and> (\<not> IsEmpty v \<longrightarrow> returns_valid (PopBack v))
     \<and> (iter_le (begin_it v) p \<and> iter_less p (end_it v) \<longrightarrow>
           returns_valid (container_of (Erase T v p)))
     \<and> (i < size_m v \<longrightarrow> returns_valid (op_index_set v i x))
     \<and> valid (swap_v s this other this) \<and> valid (swap_v s this other other)
     \<and> (size_m (s other) \<le> INT_MAX \<longrightarrow>
           returns_valid (object_at (assign_copy T s this other) this)
         \<and> returns_valid (object_at (assign_copy T s this other) other))
     \<and> valid (assign_move s this other this) \<and> valid (assign_move s this other other)"
    by (simp add: returns_constructors(1,2,3,4,6) returns_constructors(5) [OF a(1)]
      returns_move_constructor [OF a(1)] returns_Reserve [OF a(1)]
      returns_Clear [OF a(1)] returns_Resize [OF a(1)] returns_PushBack [OF a(1)]
      returns_PushBack_move [OF a(1)] returns_Insert [OF a(1)] returns_Insert_move [OF a(1)]
      returns_PopBack [OF a(1)] returns_Erase [OF a(1)] returns_op_index_set [OF a(1)]
      returns_swap [OF a(2,3)] returns_assign_copy [OF a(2,3)] returns_assign_move [OF a(2,3)])
qed

theorem invariant_preserved_witness:
  "valid (three_objects 10) \<and> valid (three_objects 20) \<and> valid (three_objects 30)
   \<and> size_cap_ok (three_objects 10) \<and> size_cap_ok (three_objects 20) \<and> size_cap_ok (three_objects 30)
   \<and> iter_le (begin_it (three_objects 10)) (Slot 1) \<and> iter_less (Slot 1) (end_it (three_objects 10))
   \<and> iter_le (Slot 1) (end_it (three_objects 10))
   \<and> \<not> IsEmpty (three_objects 10) \<and> 1 < size_m (three_objects 10)
   \<and> returns_valid (SimpleVector_copy int_type (three_objects 10))
   \<and> returns_valid (Reserve int_type (three_objects 10) 7)
   \<and> returns_valid (Resize int_type (three_objects 10) 7)
   \<and> returns_valid (PushBack int_type (three_objects 10) 5)
   \<and> returns_valid (container_of (Insert int_type (three_objects 10) (Slot 1) 5))
   \<and> returns_valid (container_of (Erase int_type (three_objects 10) (Slot 1)))
   \<and> returns_valid (PopBack (three_objects 10))
   \<and> returns_valid (op_index_set (three_objects 10) 1 5)
   \<and> valid (swap_v three_objects 20 30 20) \<and> valid (swap_v three_objects 20 30 30)
   \<and> returns_valid (object_at (assign_copy int_type three_objects 20 30) 20)
   \<and> valid (assign_move three_objects 20 30 20) \<and> valid (assign_move three_objects 20 30 30)
   \<and> keeps_size_cap (Resize int_type (three_objects 10) 7)
   \<and> keeps_size_cap (container_of (Erase int_type (three_objects 10) (Slot 1)))"
proof -
  have v0: "three_objects 10 = \<lparr>items_m = [1, 2, 0, 0], size_m = 2, cap_m = 4\<rparr>"
    and v1: "three_objects 20 = \<lparr>items_m = [1, 2], size_m = 2, cap_m = 2\<rparr>"
    and v2: "three_objects 30 = \<lparr>items_m = [9, 8, 7], size_m = 3, cap_m = 3\<rparr>"
    by (simp_all add: three_objects_def)
  have h: "valid (three_objects 10) \<and> valid (three_objects 20) \<and> valid (three_objects 30)"
    by (simp add: v0 v1 v2 valid_def size_cap_ok_def block_ok_def)
  have k: "size_cap_ok (three_objects 10) \<and> size_cap_ok (three_objects 20)
      \<and> size_cap_ok (three_objects 30)"
    using h by (simp add: valid_def)
  have p: "iter_le (begin_it (three_objects 10)) (Slot 1)"
    "iter_less (Slot 1) (end_it (three_objects 10))"
    "iter_le (Slot 1) (end_it (three_objects 10))"
    "\<not> IsEmpty (three_objects 10)" "1 < size_m (three_objects 10)"
    "size_m (three_objects 10) \<le> INT_MAX" "size_m (three_objects 30) \<le> INT_MAX"
    by (simp_all add: v0 v2 begin_it_def end_it_def slot_addr_def iter_less_def IsEmpty_def
          INT_MAX_def)
  note t = invariant_preserved [of "three_objects 10" three_objects 20 30 int_type 7 5 "[]"
      "ReserveProxyObj 0" "Slot 1" 1]
  note ta = t [THEN conjunct1, THEN mp, OF k]
  note tb = t [THEN conjunct2, THEN mp, OF h]
  show ?thesis using h k p ta tb by simp
qed

end
